theory Spec2Isabelle
  imports Complex_Main
begin

section \<open>Numbers\<close>

text \<open>
  The animation engines compute on JavaScript numbers, which are IEEE doubles.  Two
  readings of the arithmetic are used.  Where a property does not turn on rounding (the
  clamping of the scroll position, the listener protocol, the layout invariant, the
  selection scenario on whole numbers, a division of zero by zero) the values are exact
  reals.  Where rounding decides a property, every operation is rounded to the nearest
  double by \<open>fl\<close> below; the definitions that do so carry the suffix \<open>64\<close>.
\<close>

subsection \<open>The remainder operator\<close>

text \<open>
  JavaScript's \<^verbatim>\<open>a % b\<close> truncates the quotient towards zero, so the result carries the
  sign of the dividend: \<^verbatim>\<open>-7 % 3 == -1\<close>.  (For \<^verbatim>\<open>b == 0\<close> JavaScript yields NaN;
  every use below has a positive divisor.)
\<close>

definition js_trunc :: "real \<Rightarrow> int" where
  "js_trunc x = (if 0 \<le> x then \<lfloor>x\<rfloor> else \<lceil>x\<rceil>)"

definition js_rem :: "real \<Rightarrow> real \<Rightarrow> real" where
  "js_rem a b = a - b * of_int (js_trunc (a / b))"

text \<open>The idiom \<^verbatim>\<open>((v % w) + w) % w\<close> that normalises a coordinate on the strip.\<close>

definition wrap :: "real \<Rightarrow> real \<Rightarrow> real" where
  "wrap v w = js_rem (js_rem v w + w) w"

text \<open>\<^verbatim>\<open>Math.max(lo, Math.min(v, hi))\<close>, the clamping idiom used by every input handler.\<close>

definition clamp :: "real \<Rightarrow> real \<Rightarrow> real \<Rightarrow> real" where
  "clamp v lo hi = max lo (min v hi)"

subsection \<open>Numbers that may leave the finite range\<close>

text \<open>
  A division whose divisor can be zero produces \<^verbatim>\<open>Infinity\<close> or \<^verbatim>\<open>NaN\<close>, and these
  propagate through the arithmetic that follows.  Where the source divides by a measured
  quantity (a viewport height, an animation range), its values are modelled by
  \<open>jsnum\<close>.  Zero is taken as positive zero, which is what a difference \<^verbatim>\<open>x - x\<close> and a
  product with a non-negative viewport height yield.
\<close>

datatype jsnum = Fin real | PosInf | NegInf | NaN

fun jneg :: "jsnum \<Rightarrow> jsnum" where
  "jneg (Fin a) = Fin (- a)"
| "jneg PosInf = NegInf"
| "jneg NegInf = PosInf"
| "jneg NaN = NaN"

fun jadd :: "jsnum \<Rightarrow> jsnum \<Rightarrow> jsnum" where
  "jadd NaN _ = NaN"
| "jadd _ NaN = NaN"
| "jadd (Fin a) (Fin b) = Fin (a + b)"
| "jadd (Fin a) PosInf = PosInf"
| "jadd (Fin a) NegInf = NegInf"
| "jadd PosInf NegInf = NaN"
| "jadd PosInf _ = PosInf"
| "jadd NegInf PosInf = NaN"
| "jadd NegInf _ = NegInf"

definition jsub :: "jsnum \<Rightarrow> jsnum \<Rightarrow> jsnum" where
  "jsub a b = jadd a (jneg b)"

text \<open>The sign of a number other than NaN: \<open>-1\<close>, \<open>0\<close> or \<open>1\<close>.\<close>

fun jsign :: "jsnum \<Rightarrow> int" where
  "jsign (Fin a) = (if a < 0 then - 1 else if a = 0 then 0 else 1)"
| "jsign PosInf = 1"
| "jsign NegInf = - 1"
| "jsign NaN = 0"

definition signed_inf :: "int \<Rightarrow> jsnum" where
  "signed_inf s = (if s = 0 then NaN else if 0 < s then PosInf else NegInf)"

fun jmul :: "jsnum \<Rightarrow> jsnum \<Rightarrow> jsnum" where
  "jmul NaN _ = NaN"
| "jmul _ NaN = NaN"
| "jmul (Fin a) (Fin b) = Fin (a * b)"
| "jmul a b = signed_inf (jsign a * jsign b)"

fun jdiv :: "jsnum \<Rightarrow> jsnum \<Rightarrow> jsnum" where
  "jdiv NaN _ = NaN"
| "jdiv _ NaN = NaN"
| "jdiv (Fin a) (Fin b) = (if b = 0 then signed_inf (jsign (Fin a)) else Fin (a / b))"
| "jdiv (Fin a) _ = Fin 0"
| "jdiv PosInf (Fin b) = (if b < 0 then NegInf else PosInf)"
| "jdiv NegInf (Fin b) = (if b < 0 then PosInf else NegInf)"
| "jdiv _ _ = NaN"

text \<open>\<^verbatim>\<open>Math.min\<close> and \<^verbatim>\<open>Math.max\<close>: NaN if either argument is NaN.\<close>

fun jmin :: "jsnum \<Rightarrow> jsnum \<Rightarrow> jsnum" where
  "jmin NaN _ = NaN"
| "jmin _ NaN = NaN"
| "jmin NegInf _ = NegInf"
| "jmin _ NegInf = NegInf"
| "jmin PosInf b = b"
| "jmin a PosInf = a"
| "jmin (Fin a) (Fin b) = Fin (min a b)"

fun jmax :: "jsnum \<Rightarrow> jsnum \<Rightarrow> jsnum" where
  "jmax NaN _ = NaN"
| "jmax _ NaN = NaN"
| "jmax PosInf _ = PosInf"
| "jmax _ PosInf = PosInf"
| "jmax NegInf b = b"
| "jmax a NegInf = a"
| "jmax (Fin a) (Fin b) = Fin (max a b)"

definition is_finite :: "jsnum \<Rightarrow> bool" where
  "is_finite x = (case x of Fin _ \<Rightarrow> True | _ \<Rightarrow> False)"

subsection \<open>Rounding to the nearest double\<close>

text \<open>
  A double is \<open>m * 2 ^ e\<close> with \<open>\<bar>m\<bar> < 2 ^ 53\<close> and \<open>e \<ge> -1074\<close>.  \<open>rhe\<close> rounds to the
  nearest integer, a tie to the even one.  \<open>expo x\<close> is the binary exponent of \<open>x\<close>, not
  below that of the subnormal numbers, and \<open>ulp x\<close> the distance of neighbouring doubles
  around \<open>x\<close>.  \<open>fl x\<close> is the double nearest to \<open>x\<close>: the result of an arithmetic
  operation whose exact result is \<open>x\<close>.  Overflow to \<^verbatim>\<open>Infinity\<close> (beyond \<open>2 ^ 1024\<close>) is
  not modelled; no quantity below comes near it.
\<close>

definition rhe :: "real \<Rightarrow> int" where
  "rhe y = (let f = \<lfloor>y\<rfloor>; d = y - of_int f
            in if d < 1 / 2 then f else if 1 / 2 < d then f + 1
               else if even f then f else f + 1)"

definition expo :: "real \<Rightarrow> int" where
  "expo x = max \<lfloor>log 2 \<bar>x\<bar>\<rfloor> (- 1022)"

definition ulp :: "real \<Rightarrow> real" where
  "ulp x = 2 powr of_int (expo x - 52)"

definition fl :: "real \<Rightarrow> real" where
  "fl x = (if x = 0 then 0 else ulp x * of_int (rhe (x / ulp x)))"

definition is_double :: "real \<Rightarrow> bool" where
  "is_double x = (fl x = x)"

text \<open>
  \<^verbatim>\<open>Math.pow\<close> on a non-negative base.  The language leaves its accuracy to the
  implementation; it is taken as correctly rounded.  What is used of it below holds of
  every implementation that returns one of the two doubles around the exact power.
\<close>

definition pow64 :: "real \<Rightarrow> real \<Rightarrow> real" where
  "pow64 x y = fl (x powr y)"

section \<open>Marquee engine (FloatingGalleryHero.jsx)\<close>

subsection \<open>Constants\<close>

definition MAX_VISIBLE :: nat where "MAX_VISIBLE = 9"
definition MARQUEE_GAP_VW :: real where "MARQUEE_GAP_VW = 1"
definition MARQUEE_BASE_SPEED :: real where "MARQUEE_BASE_SPEED = 8 / 1000"
definition MARQUEE_MOUSE_SPEED :: real where "MARQUEE_MOUSE_SPEED = 8 / 100"
definition ROW_TOPS :: "real list" where "ROW_TOPS = [3, 16, 30]"
definition ROW_JITTER :: nat where "ROW_JITTER = 6"
definition ROW_DEPTH_SCALE :: "real list" where "ROW_DEPTH_SCALE = [55 / 100, 1, 15 / 10]"
definition STRIP_SHIFT_MS :: real where "STRIP_SHIFT_MS = 700"
definition DEPTH_SCALE_CENTER :: real where "DEPTH_SCALE_CENTER = 12 / 10"
definition DEPTH_SCALE_EDGE :: real where "DEPTH_SCALE_EDGE = 85 / 100"
definition DEPTH_FALLOFF_HALF :: real where "DEPTH_FALLOFF_HALF = 55"
definition DEPTH_EASING_POWER :: real where "DEPTH_EASING_POWER = 19 / 10"

subsection \<open>Pure helpers\<close>

text \<open>
  An image descriptor, with the numeric fields the layout reads: \<^verbatim>\<open>top\<close> and \<^verbatim>\<open>left\<close> in
  percent, and \<^verbatim>\<open>parseFloat(img.width)\<close> in vw.
\<close>

record hero_image =
  img_top :: real
  img_left :: real
  img_width :: real

text \<open>
  \<^verbatim>\<open>findCenterImageIndex\<close>: the first image with the least squared distance to (50, 50).
  The running minimum starts at \<^verbatim>\<open>Infinity\<close>, here \<open>None\<close>.
\<close>

definition findCenterImageIndex :: "hero_image list \<Rightarrow> nat" where
  "findCenterImageIndex images =
     snd (fold (\<lambda>(i, img) (minDist, idx).
            let dx = img_left img - 50;
                dy = img_top img - 50;
                dist = dx * dx + dy * dy
            in if (case minDist of None \<Rightarrow> True | Some m \<Rightarrow> dist < m)
               then (Some dist, i) else (minDist, idx))
          (enumerate 0 images) (None, 0))"

text \<open>\<^verbatim>\<open>1 - Math.pow(1 - t, 3)\<close>, each operation rounded.\<close>

definition easeOutCubic64 :: "real \<Rightarrow> real" where
  "easeOutCubic64 t = fl (1 - pow64 (fl (1 - t)) 3)"

text \<open>
  \<^verbatim>\<open>Math.pow(proximity, 1.9)\<close> on a base in \<open>[0, 1]\<close> is the real power \<open>powr\<close>, with
  \<open>0 powr 1.9 = 0\<close>.
\<close>

definition computeDepthScale :: "real \<Rightarrow> real" where
  "computeDepthScale imgCenterVw =
     (let dist = \<bar>imgCenterVw - 50\<bar>;
          proximity = max 0 (1 - dist / DEPTH_FALLOFF_HALF);
          smooth = proximity powr DEPTH_EASING_POWER
      in DEPTH_SCALE_EDGE + smooth * (DEPTH_SCALE_CENTER - DEPTH_SCALE_EDGE))"

text \<open>
  The same on doubles: every operation is rounded and the constants are the doubles
  nearest to the decimals written in the source.
\<close>

definition computeDepthScale64 :: "real \<Rightarrow> real" where
  "computeDepthScale64 imgCenterVw =
     (let dist = \<bar>fl (imgCenterVw - 50)\<bar>;
          proximity = max 0 (fl (1 - fl (dist / DEPTH_FALLOFF_HALF)));
          smooth = pow64 proximity (fl DEPTH_EASING_POWER)
      in fl (fl DEPTH_SCALE_EDGE
             + fl (smooth * fl (fl DEPTH_SCALE_CENTER - fl DEPTH_SCALE_EDGE))))"

definition shortestWrappingDelta :: "real \<Rightarrow> real \<Rightarrow> real \<Rightarrow> real" where
  "shortestWrappingDelta current target totalWidth =
     (let c = js_rem (js_rem current totalWidth + totalWidth) totalWidth;
          t = js_rem (js_rem target totalWidth + totalWidth) totalWidth;
          delta = t - c;
          delta = (if delta > totalWidth / 2 then delta - totalWidth else delta);
          delta = (if delta < - totalWidth / 2 then delta + totalWidth else delta)
      in delta)"

text \<open>
  The same on doubles.  The remainder \<^verbatim>\<open>%\<close> of two doubles is a double, so
  \<open>js_rem\<close> needs no rounding; the sum inside \<^verbatim>\<open>((v % w) + w) % w\<close>, the difference
  and the two corrections are rounded.
\<close>

definition wrap64 :: "real \<Rightarrow> real \<Rightarrow> real" where
  "wrap64 v w = js_rem (fl (js_rem v w + w)) w"


subsection \<open>Layout\<close>

record layout =
  basePositions :: "real list"
  scaledWidths :: "real list"
  totalWidth :: real
  topValues :: "real list"
  rows :: "nat list"
  maxScaledWidth :: real
  initialOffset :: real
  initialDepthScales :: "real list"

text \<open>The loop that pushes \<^verbatim>\<open>cumX\<close> and advances it by the item's width and the gap.\<close>

fun place :: "real \<Rightarrow> real \<Rightarrow> real list \<Rightarrow> real list" where
  "place cumX gap [] = []"
| "place cumX gap (w # ws) = cumX # place (cumX + (w + gap)) gap ws"

text \<open>
  \<^verbatim>\<open>marqueeLayout\<close>, for a non-empty image list; \<open>baseScale\<close> is its scale that lets
  about \<^verbatim>\<open>MAX_VISIBLE\<close> images span the viewport.  On an empty list the source divides
  zero by zero; the model has no layout there.  The formatted \<^verbatim>\<open>widthStrings\<close> are
  left out.
\<close>

definition baseScale :: "hero_image list \<Rightarrow> real" where
  "baseScale images =
     (let N = length images;
          widthsVw = map img_width images;
          avgWidth = fold (\<lambda>b a. a + b) widthsVw 0 / real N;
          targetSlotWidth = 100 / real (min N MAX_VISIBLE)
      in targetSlotWidth / (avgWidth + MARQUEE_GAP_VW))"

definition marqueeLayout :: "hero_image list \<Rightarrow> layout option" where
  "marqueeLayout images =
     (if images = [] then None else
      let N = length images;
          widthsVw = map img_width images;
          baseScale = baseScale images;
          rws = map (\<lambda>i. i mod 3) [0..<N];
          sw = map (\<lambda>i. widthsVw ! i * baseScale * ROW_DEPTH_SCALE ! (rws ! i)) [0..<N];
          scaledGap = MARQUEE_GAP_VW * baseScale;
          naturalTotal = fold (\<lambda>w acc. acc + (w + scaledGap)) sw 0;
          maxWidth = Max (set sw);
          minTotal = 100 + maxWidth + scaledGap;
          total = max naturalTotal minTotal;
          extraPerSlot = (total - naturalTotal) / real N;
          effectiveGap = scaledGap + extraPerSlot;
          bp = place 0 effectiveGap sw;
          tops = map (\<lambda>i. ROW_TOPS ! (rws ! i) + real ((i * 3) mod ROW_JITTER)) [0..<N];
          initialIndex = findCenterImageIndex images;
          initOff = wrap (bp ! initialIndex + sw ! initialIndex / 2 - 50) total;
          ids = map (\<lambda>i. computeDepthScale (wrap (bp ! i - initOff) total + sw ! i / 2)) [0..<N]
      in Some \<lparr> basePositions = bp, scaledWidths = sw, totalWidth = total,
                topValues = tops, rows = rws, maxScaledWidth = maxWidth,
                initialOffset = initOff, initialDepthScales = ids \<rparr>)"

subsection \<open>Runtime state and the frame callback\<close>

record shift_anim =
  startOffset :: real
  delta :: real
  startTime :: "real option"
  duration :: real
  startDepthScale :: real
  startTop :: real

text \<open>
  The refs the frame loop and the click handler share, together with the loop's
  \<^verbatim>\<open>lastTime\<close> variable.  \<open>prevTimeout\<close> records that the timer which ends the
  transition window is armed.
\<close>

record marquee =
  marqueeOffset :: real
  offsetAnim :: "shift_anim option"
  lastTime :: real
  mouseX :: real
  scrollProgressRef :: real
  sectionTop :: real
  isTransitioning :: bool
  selectedIndex :: nat
  prevIndex :: "nat option"
  hasInteracted :: bool
  depthScales :: "real list"
  prevTimeout :: bool

text \<open>
  The frame callback is modelled on doubles: every arithmetic operation is rounded,
  \<^verbatim>\<open>Math.max\<close> and \<^verbatim>\<open>Math.min\<close> are exact, and a constant written in the source stands
  for the double nearest to it.
\<close>

text \<open>The elapsed time of a frame, capped at 50 ms; the first frame has none.\<close>

definition frameDt64 :: "real \<Rightarrow> marquee \<Rightarrow> real" where
  "frameDt64 timestamp m =
     (let lastTime0 = (if lastTime m = 0 then timestamp else lastTime m)
      in min (fl (timestamp - lastTime0)) 50)"

text \<open>The ambient drift of one frame: \<^verbatim>\<open>speed * (dt / 16.67)\<close>.\<close>

definition driftStep64 :: "real \<Rightarrow> marquee \<Rightarrow> real" where
  "driftStep64 timestamp m =
     (let speed = fl (fl MARQUEE_BASE_SPEED + fl (mouseX m * fl MARQUEE_MOUSE_SPEED))
      in fl (speed * fl (frameDt64 timestamp m / fl (1667 / 100))))"

text \<open>
  The horizontal position of image \<open>i\<close>: wrapped onto the strip and, beyond the wrap
  threshold, moved one strip length to the left.
\<close>

definition imageX64 :: "layout \<Rightarrow> real \<Rightarrow> nat \<Rightarrow> real" where
  "imageX64 lay offset i =
     (let wrapThreshold = fl (fl (totalWidth lay - maxScaledWidth lay) - 5);
          rawX = fl (basePositions lay ! i - offset);
          x = wrap64 rawX (totalWidth lay)
      in if x > wrapThreshold then fl (x - totalWidth lay) else x)"

text \<open>
  \<^verbatim>\<open>tick\<close>: the update of the strip offset (by the active strip-shift animation, else by
  the drift when the page is not scrolled and no transition runs), then the depth scale
  of every image (all image elements being mounted).  The writes to element styles are
  not part of the state.
\<close>

definition tick64 :: "layout \<Rightarrow> real \<Rightarrow> marquee \<Rightarrow> marquee" where
  "tick64 lay timestamp m =
     (let dt = frameDt64 timestamp m;
          adjusted = max 0 (fl (scrollProgressRef m - sectionTop m));
          scrollPaused = (adjusted > 0);
          m1 = (case offsetAnim m of
                  Some anim \<Rightarrow>
                    let start = (case startTime anim of None \<Rightarrow> timestamp | Some t0 \<Rightarrow> t0);
                        elapsed = fl (timestamp - start);
                        t = min 1 (fl (elapsed / duration anim));
                        eased = easeOutCubic64 t;
                        off = fl (startOffset anim + fl (delta anim * eased))
                    in m \<lparr> marqueeOffset := wrap64 off (totalWidth lay),
                           offsetAnim := (if t \<ge> 1 then None
                                          else Some (anim \<lparr> startTime := Some start \<rparr>)) \<rparr>
                | None \<Rightarrow>
                    if \<not> scrollPaused \<and> \<not> isTransitioning m then
                      let off = fl (marqueeOffset m + driftStep64 timestamp m)
                      in m \<lparr> marqueeOffset :=
                               (if off \<ge> totalWidth lay then fl (off - totalWidth lay)
                                else if off < 0 then fl (off + totalWidth lay)
                                else off) \<rparr>
                    else m);
          offset = marqueeOffset m1
      in m1 \<lparr> lastTime := timestamp,
               depthScales := map (\<lambda>i. computeDepthScale64
                                       (fl (imageX64 lay offset i + fl (scaledWidths lay ! i / 2))))
                                  [0..<length (basePositions lay)] \<rparr>)"

text \<open>
  \<^verbatim>\<open>handleMouseMove\<close>: the pointer position normalised to \<open>[-1, 1]\<close>,
  \<^verbatim>\<open>(e.clientX / window.innerWidth) * 2 - 1\<close>.  (The vertical coordinate it also records
  is not read by the frame callback as far as the offset goes.)
\<close>

definition handleMouseMove64 :: "real \<Rightarrow> real \<Rightarrow> marquee \<Rightarrow> marquee" where
  "handleMouseMove64 clientX innerWidth m =
     m \<lparr> mouseX := fl (fl (fl (clientX / innerWidth) * 2) - 1) \<rparr>"

text \<open>
  \<^verbatim>\<open>handleSelect\<close>: nothing for the current selection; otherwise the refs are switched
  and a strip-shift animation towards \<open>centerOffset\<close>, the offset that puts the centre of
  the clicked image at 50vw, is installed.  \<^verbatim>\<open>depthScalesRef.current[index] || 1\<close> is 1
  where the entry is 0 or missing.  The handler is attached to the images of the list, so
  \<open>index\<close> is one of their positions.
\<close>

definition centerOffset :: "layout \<Rightarrow> nat \<Rightarrow> real" where
  "centerOffset lay index =
     (let targetOffset = basePositions lay ! index + scaledWidths lay ! index / 2 - 50
      in wrap targetOffset (totalWidth lay))"

definition handleSelect :: "layout \<Rightarrow> nat \<Rightarrow> marquee \<Rightarrow> marquee" where
  "handleSelect lay index m =
     (let current = selectedIndex m in
      if index = current then m else
      let targetOffset = centerOffset lay index;
          d = shortestWrappingDelta (marqueeOffset m) targetOffset (totalWidth lay);
          ds = (if index < length (depthScales m) then depthScales m ! index else 0)
      in m \<lparr> selectedIndex := index,
             prevIndex := Some current,
             hasInteracted := True,
             isTransitioning := True,
             offsetAnim := Some \<lparr> startOffset = marqueeOffset m, delta = d,
                                   startTime = None, duration = STRIP_SHIFT_MS,
                                   startDepthScale = (if ds = 0 then 1 else ds),
                                   startTop = topValues lay ! index \<rparr>,
             prevTimeout := True \<rparr>)"

text \<open>
  The repository keeps an earlier copy of the component whose \<^verbatim>\<open>handleSelect\<close> aligns
  the left edge of the image, not its centre, with 50vw:
  \<^verbatim>\<open>targetOffset = basePositions[index] - 50\<close>.  This is the target offset and the delta
  that copy installs.
\<close>

definition selectShift_edge :: "layout \<Rightarrow> nat \<Rightarrow> real \<Rightarrow> real \<times> real" where
  "selectShift_edge lay index offset =
     (let targetOffset = basePositions lay ! index - 50;
          targetOffset = wrap targetOffset (totalWidth lay);
          d = shortestWrappingDelta offset targetOffset (totalWidth lay)
      in (targetOffset, d))"

section \<open>Scroll position tracker (SmoothScrollContext.jsx)\<close>

definition lerp :: "real \<Rightarrow> real \<Rightarrow> real \<Rightarrow> real" where
  "lerp start end factor = start + (end - start) * factor"

text \<open>
  \<^verbatim>\<open>Math.round(x * 100) / 100\<close>, as computed on doubles: the product is rounded,
  \<^verbatim>\<open>Math.round\<close> takes the nearest integer (a half towards \<open>+\<infinity>\<close>), and the quotient is
  rounded again.  So \<^verbatim>\<open>2.675\<close> becomes \<^verbatim>\<open>2.68\<close>, its product with 100 being rounded up to
  \<^verbatim>\<open>267.5\<close>.
\<close>

definition round2 :: "real \<Rightarrow> real" where
  "round2 x = fl (of_int \<lfloor>fl (x * 100) + 1 / 2\<rfloor> / 100)"

text \<open>
  A scroll listener is a callback that receives the scroll position.  What the tracker
  can observe of a call is whether it returns or throws.
\<close>

datatype outcome = Returned | Threw

type_synonym listener = "real \<Rightarrow> outcome"

text \<open>
  \<open>scrollData\<close> is \<^verbatim>\<open>scrollDataRef.current\<close>; \<open>rafPending\<close> says that a frame callback
  of \<^verbatim>\<open>updateScroll\<close> is queued (the meaning of a fresh \<^verbatim>\<open>rafId\<close>).  \<open>transform\<close> is the
  \<^verbatim>\<open>translateY\<close> written to the content element, \<open>scrollY\<close> the React state, and
  \<open>calls\<close> the log of listener invocations: the position of the listener in
  registration order and the value it was given.
\<close>

record scroll =
  current :: real
  target :: real
  ease :: real
  rafPending :: bool
  isScrolling :: bool
  transform :: real
  scrollY :: real
  calls :: "(nat \<times> real) list"

text \<open>
  A function body either completes or is left by an exception; the state it has written
  so far stays written in both cases.
\<close>

datatype 's completion = Normal 's | Abrupt 's

fun state_of :: "'s completion \<Rightarrow> 's" where
  "state_of (Normal s) = s"
| "state_of (Abrupt s) = s"

text \<open>
  \<^verbatim>\<open>scrollListenersRef.current.forEach(listener => listener(v))\<close>: the listeners are
  called in registration order, from position \<open>i\<close> on; an exception thrown by one of them
  leaves \<^verbatim>\<open>forEach\<close> at once.
\<close>

fun notify :: "listener list \<Rightarrow> nat \<Rightarrow> real \<Rightarrow> scroll \<Rightarrow> scroll completion" where
  "notify [] i v s = Normal s"
| "notify (l # ls) i v s =
     (let s' = s \<lparr> calls := calls s @ [(i, v)] \<rparr>
      in case l v of
           Threw \<Rightarrow> Abrupt s'
         | Returned \<Rightarrow> notify ls (Suc i) v s')"

text \<open>
  \<^verbatim>\<open>updateScroll\<close>, the frame callback.  \<open>content\<close> is \<^verbatim>\<open>contentRef.current\<close>: \<open>None\<close>
  while the container is not mounted, else its \<^verbatim>\<open>scrollHeight\<close>.
\<close>

definition updateScroll :: "real option \<Rightarrow> listener list \<Rightarrow> scroll \<Rightarrow> scroll completion" where
  "updateScroll content listeners s =
     (case content of
        None \<Rightarrow> Normal s
      | Some _ \<Rightarrow>
          let s1 = s \<lparr> current := lerp (current s) (target s) (ease s) \<rparr>;
              rounded = round2 (current s1);
              s2 = s1 \<lparr> transform := - rounded, scrollY := rounded \<rparr>
          in case notify listeners 0 rounded s2 of
               Abrupt s3 \<Rightarrow> Abrupt s3
             | Normal s3 \<Rightarrow>
                 let diff = \<bar>target s3 - current s3\<bar>
                 in if diff > 1 / 2 then Normal (s3 \<lparr> rafPending := True \<rparr>)
                    else
                      let s4 = s3 \<lparr> current := target s3, transform := - target s3,
                                     scrollY := target s3 \<rparr>
                      in case notify listeners 0 (target s4) s4 of
                           Abrupt s5 \<Rightarrow> Abrupt s5
                         | Normal s5 \<Rightarrow> Normal (s5 \<lparr> isScrolling := False \<rparr>))"

text \<open>
  One animation frame: the queued callback, if any, is taken off the queue and run.  An
  exception that leaves the callback is reported by the browser and the page goes on.
\<close>

definition frame :: "real option \<Rightarrow> listener list \<Rightarrow> scroll \<Rightarrow> scroll" where
  "frame content listeners s =
     (if rafPending s
      then state_of (updateScroll content listeners (s \<lparr> rafPending := False \<rparr>))
      else s)"

fun frames :: "nat \<Rightarrow> real option \<Rightarrow> listener list \<Rightarrow> scroll \<Rightarrow> scroll" where
  "frames 0 content listeners s = s"
| "frames (Suc n) content listeners s = frames n content listeners (frame content listeners s)"

text \<open>\<^verbatim>\<open>scrollTo(position, instant)\<close>, with the window's \<^verbatim>\<open>innerHeight\<close>.\<close>

definition scrollTo :: "real option \<Rightarrow> real \<Rightarrow> real \<Rightarrow> bool \<Rightarrow> scroll \<Rightarrow> scroll" where
  "scrollTo content innerHeight position instant s =
     (case content of
        None \<Rightarrow> s
      | Some scrollHeight \<Rightarrow>
          let maxScroll = scrollHeight - innerHeight;
              targetPos = max 0 (min position maxScroll)
          in if instant
             then s \<lparr> current := targetPos, target := targetPos, transform := - targetPos \<rparr>
             else
               let s1 = s \<lparr> target := targetPos \<rparr>
               in if \<not> isScrolling s1
                  then s1 \<lparr> isScrolling := True, rafPending := True \<rparr>
                  else s1)"

definition getScrollPosition :: "scroll \<Rightarrow> real" where
  "getScrollPosition s = current s"

text \<open>
  \<^verbatim>\<open>scrollToElement\<close>: the rectangles are the \<^verbatim>\<open>getBoundingClientRect\<close> results of the
  content and of the element.
\<close>

datatype block = Start | Center | End

definition scrollToElement ::
  "real option \<Rightarrow> real \<Rightarrow> real \<Rightarrow> (real \<times> real) option \<Rightarrow> real \<Rightarrow> block \<Rightarrow> bool \<Rightarrow> scroll \<Rightarrow> scroll" where
  "scrollToElement content innerHeight contentTop element offset blk instant s =
     (case (content, element) of
        (Some _, Some (elementRectTop, elementHeight)) \<Rightarrow>
          let elementTop = elementRectTop - contentTop + current s;
              targetScroll =
                (case blk of
                   Center \<Rightarrow> elementTop - (innerHeight / 2) + (elementHeight / 2) + offset
                 | End \<Rightarrow> elementTop - innerHeight + elementHeight + offset
                 | Start \<Rightarrow> elementTop + offset)
          in scrollTo content innerHeight targetScroll instant s
      | _ \<Rightarrow> s)"

section \<open>Pin-and-scale transform (IntroSection.jsx, HeroSection)\<close>

definition GROW_PHASE_VH_MULTIPLIER :: real where "GROW_PHASE_VH_MULTIPLIER = 11 / 10"
definition HOLD_PHASE_VH_MULTIPLIER :: real where "HOLD_PHASE_VH_MULTIPLIER = 5 / 100"

record hero_transform =
  scale :: jsnum
  translateY :: jsnum
  parallaxX :: jsnum
  parallaxY :: jsnum

definition resting :: hero_transform where
  "resting = \<lparr> scale = Fin 1, translateY = Fin 0, parallaxX = Fin 0, parallaxY = Fin 0 \<rparr>"

subsection \<open>The variant scaled to the viewport height\<close>

text \<open>
  The three branches of \<^verbatim>\<open>updateTransform\<close>, each giving \<open>(scale, translateY)\<close>.  The
  scroll position, the viewport size and the pointer position are finite; the quotients
  by \<^verbatim>\<open>growPhaseEnd\<close> and \<^verbatim>\<open>window.innerHeight\<close> need not be.
\<close>

definition phase_growing :: "real \<Rightarrow> real \<Rightarrow> real \<Rightarrow> jsnum \<times> jsnum" where
  "phase_growing initialScale growPhaseEnd scrollProgress =
     (let scaleGrowth = 105 / 100 - initialScale;
          progress = jdiv (Fin scrollProgress) (Fin growPhaseEnd)
      in (jadd (Fin initialScale) (jmul progress (Fin scaleGrowth)),
          jadd (Fin (- 106)) (jmul progress (Fin 106))))"

definition phase_hold :: "real \<Rightarrow> real \<Rightarrow> real \<Rightarrow> jsnum \<times> jsnum" where
  "phase_hold growPhaseEnd innerHeight scrollProgress =
     (let extraScroll = scrollProgress - growPhaseEnd;
          extraCompensation = jmul (jdiv (Fin extraScroll) (Fin innerHeight)) (Fin 100)
      in (Fin (105 / 100), extraCompensation))"

definition phase_release :: "real \<Rightarrow> real \<Rightarrow> jsnum \<times> jsnum" where
  "phase_release holdDuration innerHeight =
     (let holdCompensation = jmul (jdiv (Fin holdDuration) (Fin innerHeight)) (Fin 100)
      in (Fin (105 / 100), holdCompensation))"

text \<open>The parallax strength and the two parallax offsets, shared by both variants.\<close>

definition parallax :: "real \<Rightarrow> real \<Rightarrow> real \<times> real \<Rightarrow> jsnum \<times> jsnum" where
  "parallax growPhaseEnd scrollProgress mousePosition =
     (let progress = jmin (jdiv (Fin scrollProgress) (Fin growPhaseEnd)) (Fin 1);
          parallaxStrength = jmax (Fin 0) (jsub (Fin 1) (jmul progress (Fin (12 / 10))));
          maxOffsetLeftX = 135;
          maxOffsetRightX = 230;
          maxOffsetX = (if fst mousePosition > 0 then maxOffsetRightX else maxOffsetLeftX);
          maxOffsetY = 80
      in (jmul (Fin (fst mousePosition * maxOffsetX)) parallaxStrength,
          jmul (Fin (snd mousePosition * maxOffsetY)) parallaxStrength))"

definition updateTransform ::
  "bool \<Rightarrow> real \<Rightarrow> real \<Rightarrow> real \<Rightarrow> real \<times> real \<Rightarrow> hero_transform" where
  "updateTransform prefersReducedMotion screenWidth innerHeight scrollProgress mousePosition =
     (if prefersReducedMotion then resting
      else if screenWidth < 768 then resting
      else
        let growPhaseEnd = innerHeight * GROW_PHASE_VH_MULTIPLIER;
            holdDuration = innerHeight * HOLD_PHASE_VH_MULTIPLIER;
            holdPhaseEnd = growPhaseEnd + holdDuration;
            initialScale = (if screenWidth < 1024 then 55 / 100 else 46 / 100);
            (sc, ty) =
              (if scrollProgress \<le> growPhaseEnd
               then phase_growing initialScale growPhaseEnd scrollProgress
               else if scrollProgress \<le> holdPhaseEnd
               then phase_hold growPhaseEnd innerHeight scrollProgress
               else phase_release holdDuration innerHeight);
            (px, py) = parallax growPhaseEnd scrollProgress mousePosition
        in \<lparr> scale = sc, translateY = ty, parallaxX = px, parallaxY = py \<rparr>)"

section \<open>Staggered word animator (useStaggeredText)\<close>

definition BASE_TRANSFORMS :: "real list" where
  "BASE_TRANSFORMS = [3 / 10, - 9 / 10, 15 / 10, - 24 / 10, - 3 / 10, 19 / 10, - 13 / 10, 6 / 10]"

text \<open>\<^verbatim>\<open>(BASE_TRANSFORMS[type] || 0)\<close>: a type outside the table counts as 0.\<close>

definition baseTransform :: "nat \<Rightarrow> real" where
  "baseTransform ty = (if ty < length BASE_TRANSFORMS then BASE_TRANSFORMS ! ty else 0)"

text \<open>\<^verbatim>\<open>applyEasing(progress, easingPower)\<close>; the frame loop calls it with the default 3.0.\<close>

definition applyEasing :: "jsnum \<Rightarrow> real \<Rightarrow> jsnum" where
  "applyEasing progress easingPower =
     (if easingPower \<le> 2
      then jmul (jmul progress progress) (jsub (Fin 3) (jmul (Fin 2) progress))
      else jmul (jmul (jmul progress progress) progress)
                (jadd (jmul progress (jsub (jmul progress (Fin 6)) (Fin 15))) (Fin 10)))"

record stagger_options =
  maxOffset :: real
  wordSpacing :: real
  animationSpeed :: real
  animationSmoothing :: real
  animationStart :: real
  animationEnd :: real
  delayRange :: real
  staticWords :: real

definition default_options :: stagger_options where
  "default_options = \<lparr> maxOffset = 1, wordSpacing = 1 / 10, animationSpeed = 15 / 100,
     animationSmoothing = 1 / 2, animationStart = 0, animationEnd = 100,
     delayRange = 3 / 10, staticWords = 50 \<rparr>"

text \<open>The data attributes of a word span and its measured rectangle.\<close>

record word =
  w_index :: nat
  w_type :: nat
  w_delay :: real
  w_static :: bool
  w_top :: real
  w_height :: real

definition animationRange :: "stagger_options \<Rightarrow> real \<Rightarrow> real" where
  "animationRange opts windowHeight =
     (let startY = windowHeight * (animationStart opts / 100);
          endY = windowHeight * (animationEnd opts / 100)
      in startY - endY)"

definition baseProgress :: "stagger_options \<Rightarrow> real \<Rightarrow> word \<Rightarrow> jsnum" where
  "baseProgress opts windowHeight w =
     (let startY = windowHeight * (animationStart opts / 100);
          range = animationRange opts windowHeight;
          wordCenter = w_top w + w_height w / 2
      in jmax (Fin 0) (jmin (Fin 1) (jdiv (Fin (startY - wordCenter)) (Fin range))))"

definition targetProgress :: "stagger_options \<Rightarrow> real \<Rightarrow> word \<Rightarrow> jsnum" where
  "targetProgress opts windowHeight w =
     jmax (Fin 0) (jmin (Fin 1)
       (jdiv (jsub (baseProgress opts windowHeight w) (Fin (w_delay w))) (Fin (1 - w_delay w))))"

text \<open>
  The two maps of per-word state, keyed by the word's index, and the body of the loop
  over the words in \<^verbatim>\<open>updateAnimation\<close>: it returns the offset written to the word's
  \<^verbatim>\<open>translateX\<close> and the updated maps.
\<close>

record word_states =
  progressStates :: "nat \<rightharpoonup> jsnum"
  wordStates :: "nat \<rightharpoonup> jsnum"

definition updateWord ::
  "stagger_options \<Rightarrow> real \<Rightarrow> word \<Rightarrow> word_states \<Rightarrow> jsnum \<times> word_states" where
  "updateWord opts windowHeight w st =
     (if w_static w then (Fin 0, st)
      else
        let factor = maxOffset opts / (24 / 10);
            tp = targetProgress opts windowHeight w;
            currentProgress = (case progressStates st (w_index w) of None \<Rightarrow> Fin 0 | Some p \<Rightarrow> p);
            newProgress = jadd currentProgress (jmul (jsub tp currentProgress) (Fin (animationSpeed opts)));
            easedProgress = applyEasing newProgress 3;
            originalOffset = baseTransform (w_type w) * factor;
            targetOffset = jmul (Fin originalOffset) (jsub (Fin 1) easedProgress);
            currentOffset = (case wordStates st (w_index w) of None \<Rightarrow> Fin originalOffset | Some c \<Rightarrow> c);
            newOffset = jadd currentOffset
                          (jmul (jsub targetOffset currentOffset) (Fin (1 - animationSmoothing opts)))
        in (newOffset,
            st \<lparr> progressStates := (progressStates st)(w_index w \<mapsto> newProgress),
                 wordStates := (wordStates st)(w_index w \<mapsto> newOffset) \<rparr>))"

section \<open>Concrete inputs\<close>

text \<open>
  The marquee of the selection scenario: five items of width 10 on a strip of length 100,
  the strip offset at 5.
\<close>

definition scenario_layout :: layout where
  "scenario_layout = \<lparr> basePositions = [10, 30, 50, 70, 90], scaledWidths = [10, 10, 10, 10, 10],
     totalWidth = 100, topValues = [3, 19, 30, 6, 16], rows = [0, 1, 2, 0, 1],
     maxScaledWidth = 10, initialOffset = 5, initialDepthScales = [1, 1, 1, 1, 1] \<rparr>"

definition scenario_marquee :: marquee where
  "scenario_marquee = \<lparr> marqueeOffset = 5, offsetAnim = None, lastTime = 0, mouseX = 0,
     scrollProgressRef = 0, sectionTop = 0, isTransitioning = False, selectedIndex = 0,
     prevIndex = None, hasInteracted = False, depthScales = [1, 1, 1, 1, 1],
     prevTimeout = False \<rparr>"

text \<open>The same marquee at offset 0, a frame having run at time 1000.\<close>

definition resting_marquee :: marquee where
  "resting_marquee = scenario_marquee \<lparr> marqueeOffset := 0, lastTime := 1000 \<rparr>"

text \<open>The first two images of the desktop gallery.\<close>

definition two_images :: "hero_image list" where
  "two_images = [\<lparr> img_top = 14, img_left = 3, img_width = 18 \<rparr>,
                 \<lparr> img_top = 22, img_left = 30, img_width = 11 \<rparr>]"

text \<open>A listener that returns, one that throws, and an idle tracker at the top of the page.\<close>

definition quiet :: listener where
  "quiet v = Returned"

definition throwing :: listener where
  "throwing v = Threw"

definition idle_scroll :: scroll where
  "idle_scroll = \<lparr> current = 0, target = 0, ease = 1 / 2, rafPending = False,
     isScrolling = False, transform = 0, scrollY = 0, calls = [] \<rparr>"

text \<open>A moving word whose centre lies on the top edge of the viewport.\<close>

definition edge_word :: word where
  "edge_word = \<lparr> w_index = 0, w_type = 3, w_delay = 0, w_static = False, w_top = 0, w_height = 0 \<rparr>"

definition fresh_states :: word_states where
  "fresh_states = \<lparr> progressStates = Map.empty, wordStates = Map.empty \<rparr>"

text \<open>A listener that throws when it is given the position \<open>a\<close>, and only then.\<close>

definition throwing_on :: "real \<Rightarrow> listener" where
  "throwing_on a v = (if v = a then Threw else Returned)"

section \<open>The pin-and-scale transform on doubles\<close>












section \<open>Properties of the remainder idiom\<close>

lemma js_rem_nonneg:
  assumes "0 < w" "0 \<le> v"
  shows "js_rem v w = v - w * of_int \<lfloor>v / w\<rfloor>"
  using assms by (simp add: js_rem_def js_trunc_def)

lemma floor_part_bounds:
  assumes "0 < w"
  shows "0 \<le> v - w * of_int \<lfloor>v / w\<rfloor>" "v - w * of_int \<lfloor>v / w\<rfloor> < w"
proof -
  have "w * of_int \<lfloor>v / w\<rfloor> \<le> w * (v / w)"
    using assms by (intro mult_left_mono) simp_all
  then have "w * of_int \<lfloor>v / w\<rfloor> \<le> v"
    using assms by simp
  then show "0 \<le> v - w * of_int \<lfloor>v / w\<rfloor>" by simp
  have "v / w < of_int \<lfloor>v / w\<rfloor> + 1" by linarith
  then have "w * (v / w) < w * (of_int \<lfloor>v / w\<rfloor> + 1)"
    using assms by (intro mult_strict_left_mono)
  then have "v < (of_int \<lfloor>v / w\<rfloor> + 1) * w"
    using assms by (simp add: mult.commute)
  then show "v - w * of_int \<lfloor>v / w\<rfloor> < w" by (simp add: algebra_simps)
qed

lemma js_rem_small:
  assumes "0 < w" "0 \<le> r" "r < w"
  shows "js_rem r w = r"
proof -
  have "\<lfloor>r / w\<rfloor> = 0" using assms by (simp add: floor_eq_iff)
  then show ?thesis using assms by (simp add: js_rem_def js_trunc_def)
qed

lemma js_rem_shift:
  assumes "0 < w" "0 \<le> r" "r < w"
  shows "js_rem (r + w) w = r"
proof -
  have "(r + w) / w = r / w + 1" using assms by (simp add: field_simps)
  moreover have "\<lfloor>r / w\<rfloor> = 0" using assms by (simp add: floor_eq_iff)
  ultimately have "\<lfloor>(r + w) / w\<rfloor> = 1" by simp
  moreover have "0 \<le> (r + w) / w" using assms by simp
  ultimately show ?thesis by (simp add: js_rem_def js_trunc_def)
qed

text \<open>On a positive modulus the idiom is the mathematical remainder.\<close>

lemma wrap_floor:
  assumes "0 < w"
  shows "wrap v w = v - w * of_int \<lfloor>v / w\<rfloor>"
proof (cases "0 \<le> v")
  case True
  then have "js_rem v w = v - w * of_int \<lfloor>v / w\<rfloor>"
    using assms by (rule js_rem_nonneg[rotated])
  then show ?thesis
    unfolding wrap_def using js_rem_shift[OF assms floor_part_bounds[OF assms]] by simp
next
  case False
  then have neg: "v / w < 0" using assms by (simp add: divide_neg_pos)
  then have r: "js_rem v w = v - w * of_int \<lceil>v / w\<rceil>"
    by (simp add: js_rem_def js_trunc_def)
  show ?thesis
  proof (cases "of_int \<lfloor>v / w\<rfloor> = v / w")
    case True
    then have c: "\<lceil>v / w\<rceil> = \<lfloor>v / w\<rfloor>"
      by (metis ceiling_of_int)
    have "w * of_int \<lfloor>v / w\<rfloor> = w * (v / w)" by (simp only: True)
    also have "\<dots> = v" using assms by simp
    finally have e: "w * of_int \<lfloor>v / w\<rfloor> = v" .
    then have "js_rem v w = 0" using r c by simp
    moreover have "js_rem w w = 0" using assms by (simp add: js_rem_def js_trunc_def)
    ultimately show ?thesis
      unfolding wrap_def using e by simp
  next
    case False
    then have c: "\<lceil>v / w\<rceil> = \<lfloor>v / w\<rfloor> + 1"
      by (metis ceiling_altdef)
    have "js_rem v w + w = v - w * of_int \<lfloor>v / w\<rfloor>"
      using r c by (simp add: algebra_simps)
    then show ?thesis
      unfolding wrap_def using js_rem_small[OF assms floor_part_bounds[OF assms]] by simp
  qed
qed



lemma wrap_idem:
  assumes "0 < w" "0 \<le> v" "v < w"
  shows "wrap v w = v"
proof -
  have "\<lfloor>v / w\<rfloor> = 0" using assms by (simp add: floor_eq_iff)
  then show ?thesis by (simp add: wrap_floor[OF assms(1)])
qed

text \<open>The range of the remainder itself.\<close>

lemma js_rem_abs_less:
  assumes "0 < w"
  shows "\<bar>js_rem v w\<bar> < w"
proof (cases "0 \<le> v")
  case True
  then have "js_rem v w = v - w * of_int \<lfloor>v / w\<rfloor>"
    using assms by (intro js_rem_nonneg)
  then show ?thesis using floor_part_bounds[OF assms, of v] by simp
next
  case False
  then have "v / w < 0" using assms by (simp add: divide_neg_pos)
  then have "js_rem v w = v - w * of_int \<lceil>v / w\<rceil>"
    by (simp add: js_rem_def js_trunc_def)
  also have "\<dots> = - (- v - w * of_int \<lfloor>(- v) / w\<rfloor>)"
    by (simp add: ceiling_def)
  finally show ?thesis using floor_part_bounds[OF assms, of "- v"] by simp
qed

lemma js_rem_range:
  assumes "0 < w" "0 \<le> v"
  shows "0 \<le> js_rem v w" "js_rem v w < w"
  using floor_part_bounds[OF assms(1), of v] by (simp_all add: js_rem_nonneg[OF assms])

section \<open>Properties of rounding\<close>

subsection \<open>Rounding to an integer\<close>

lemma rhe_of_int [simp]: "rhe (of_int n) = n"
  by (simp add: rhe_def)

lemma rhe_bounds: "\<lfloor>y\<rfloor> \<le> rhe y" "rhe y \<le> \<lfloor>y\<rfloor> + 1"
  by (simp_all add: rhe_def Let_def)

lemma rhe_mono:
  assumes "a \<le> b"
  shows "rhe a \<le> rhe b"
proof (cases "\<lfloor>a\<rfloor> = \<lfloor>b\<rfloor>")
  case True
  have "a - of_int \<lfloor>a\<rfloor> \<le> b - of_int \<lfloor>a\<rfloor>" using assms by simp
  then show ?thesis
    unfolding rhe_def Let_def True[symmetric] by auto
next
  case False
  then have "\<lfloor>a\<rfloor> < \<lfloor>b\<rfloor>" using floor_mono[OF assms] by linarith
  then show ?thesis using rhe_bounds(2)[of a] rhe_bounds(1)[of b] by linarith
qed

lemma rhe_cases:
  obtains (down) "y - of_int \<lfloor>y\<rfloor> < 1 / 2" "rhe y = \<lfloor>y\<rfloor>"
  | (up) "1 / 2 < y - of_int \<lfloor>y\<rfloor>" "rhe y = \<lfloor>y\<rfloor> + 1"
  | (tie_even) "y - of_int \<lfloor>y\<rfloor> = 1 / 2" "even \<lfloor>y\<rfloor>" "rhe y = \<lfloor>y\<rfloor>"
  | (tie_odd) "y - of_int \<lfloor>y\<rfloor> = 1 / 2" "odd \<lfloor>y\<rfloor>" "rhe y = \<lfloor>y\<rfloor> + 1"
proof -
  consider "y - of_int \<lfloor>y\<rfloor> < 1 / 2" | "1 / 2 < y - of_int \<lfloor>y\<rfloor>"
    | "y - of_int \<lfloor>y\<rfloor> = 1 / 2" "even \<lfloor>y\<rfloor>" | "y - of_int \<lfloor>y\<rfloor> = 1 / 2" "odd \<lfloor>y\<rfloor>"
    by linarith
  then show thesis
  proof cases
    case 1 then show ?thesis using down by (simp add: rhe_def Let_def)
  next
    case 2 then show ?thesis using up by (simp add: rhe_def Let_def)
  next
    case 3 then show ?thesis using tie_even by (simp add: rhe_def Let_def)
  next
    case 4 then show ?thesis using tie_odd by (simp add: rhe_def Let_def)
  qed
qed


lemma rhe_minus: "rhe (- y) = - rhe y"
proof (cases "y = of_int \<lfloor>y\<rfloor>")
  case True
  have "rhe (- of_int \<lfloor>y\<rfloor>) = - rhe (of_int \<lfloor>y\<rfloor>)"
    by (simp flip: of_int_minus)
  then show ?thesis by (subst (1 2) True) 
next
  case False
  then have f: "\<lfloor>- y\<rfloor> = - \<lfloor>y\<rfloor> - 1"
    by (simp add: floor_minus ceiling_altdef)
  have d: "- y - of_int \<lfloor>- y\<rfloor> = 1 - (y - of_int \<lfloor>y\<rfloor>)" by (simp add: f)
  have e: "even \<lfloor>- y\<rfloor> \<longleftrightarrow> odd \<lfloor>y\<rfloor>" by (simp add: f)
  show ?thesis
  proof (cases y rule: rhe_cases)
    case down
    then have "1 / 2 < - y - of_int \<lfloor>- y\<rfloor>" using d by linarith
    then have "rhe (- y) = \<lfloor>- y\<rfloor> + 1" by (simp add: rhe_def Let_def)
    then show ?thesis using down f by simp
  next
    case up
    then have "- y - of_int \<lfloor>- y\<rfloor> < 1 / 2" using d by linarith
    then have "rhe (- y) = \<lfloor>- y\<rfloor>" by (simp add: rhe_def Let_def)
    then show ?thesis using up f by simp
  next
    case tie_even
    then have "- y - of_int \<lfloor>- y\<rfloor> = 1 / 2" "odd \<lfloor>- y\<rfloor>" using d e by simp_all
    then have "rhe (- y) = \<lfloor>- y\<rfloor> + 1" by (simp add: rhe_def Let_def)
    then show ?thesis using tie_even f by simp
  next
    case tie_odd
    then have "- y - of_int \<lfloor>- y\<rfloor> = 1 / 2" "even \<lfloor>- y\<rfloor>" using d e by simp_all
    then have "rhe (- y) = \<lfloor>- y\<rfloor>" by (simp add: rhe_def Let_def)
    then show ?thesis using tie_odd f by simp
  qed
qed

subsection \<open>Exponent and spacing\<close>

lemma ulp_pos: "0 < ulp x"
  by (simp add: ulp_def)

lemma expo_ge: "- 1022 \<le> expo x"
  by (simp add: expo_def)

lemma expo_minus [simp]: "expo (- x) = expo x"
  by (simp add: expo_def)

lemma ulp_minus [simp]: "ulp (- x) = ulp x"
  by (simp add: ulp_def)

lemma expo_upper:
  assumes "x \<noteq> 0"
  shows "\<bar>x\<bar> < 2 powr of_int (expo x + 1)"
proof -
  have "log 2 \<bar>x\<bar> < of_int (\<lfloor>log 2 \<bar>x\<bar>\<rfloor> + 1)" by linarith
  also have "\<dots> \<le> of_int (expo x + 1)" by (simp add: expo_def)
  finally show ?thesis using assms by (simp add: log_less_iff)
qed

lemma expo_lower:
  assumes "x \<noteq> 0" and "- 1022 < expo x"
  shows "2 powr of_int (expo x) \<le> \<bar>x\<bar>"
proof -
  have "expo x = \<lfloor>log 2 \<bar>x\<bar>\<rfloor>" using assms(2) by (simp add: expo_def max_def split: if_splits)
  then have "of_int (expo x) \<le> log 2 \<bar>x\<bar>" by simp
  then show ?thesis using assms(1) by (simp add: le_log_iff)
qed

lemma expo_eq:
  assumes "2 powr of_int k \<le> \<bar>x\<bar>" and "\<bar>x\<bar> < 2 powr of_int (k + 1)" and "- 1022 \<le> k"
  shows "expo x = k"
proof -
  have "0 < \<bar>x\<bar>" using assms(1) by (smt (verit) powr_gt_zero)
  then have "\<lfloor>log 2 \<bar>x\<bar>\<rfloor> = k"
    using assms(1,2) by (simp add: floor_log_eq_powr_iff)
  then show ?thesis using assms(3) by (simp add: expo_def)
qed

lemma expo_sub:
  assumes "x \<noteq> 0" and "\<bar>x\<bar> < 2 powr (- 1022)"
  shows "expo x = - 1022"
proof -
  have "log 2 \<bar>x\<bar> < - 1022" using assms by (simp add: log_less_iff)
  then have "\<lfloor>log 2 \<bar>x\<bar>\<rfloor> < - 1022" by linarith
  then show ?thesis by (simp add: expo_def)
qed

lemma expo_mono:
  assumes "x \<noteq> 0" and "\<bar>x\<bar> \<le> \<bar>y\<bar>"
  shows "expo x \<le> expo y"
proof -
  have "log 2 \<bar>x\<bar> \<le> log 2 \<bar>y\<bar>" using assms by simp
  then have "\<lfloor>log 2 \<bar>x\<bar>\<rfloor> \<le> \<lfloor>log 2 \<bar>y\<bar>\<rfloor>" by (rule floor_mono)
  then show ?thesis by (simp add: expo_def)
qed

lemma fl_zero [simp]: "fl 0 = 0"
  by (simp add: fl_def)

lemma fl_minus: "fl (- x) = - fl x"
  by (simp add: fl_def rhe_minus)

lemma fl_nonneg:
  assumes "0 \<le> x"
  shows "0 \<le> fl x"
proof -
  have "0 \<le> x / ulp x" using assms ulp_pos[of x] by simp
  then have "rhe 0 \<le> rhe (x / ulp x)" by (rule rhe_mono)
  then have "0 \<le> rhe (x / ulp x)" using rhe_of_int[of 0] by simp
  then show ?thesis using ulp_pos[of x] by (simp add: fl_def)
qed

lemma ulp_scale:
  "ulp x * 2 ^ 52 = 2 powr of_int (expo x)" "ulp x * 2 ^ 53 = 2 powr of_int (expo x + 1)"
proof -
  have p: "(2::real) ^ 52 = 2 powr 52" "(2::real) ^ 53 = 2 powr 53" by simp_all
  have "ulp x * 2 powr 52 = 2 powr (of_int (expo x - 52) + 52)"
    by (simp only: ulp_def powr_add)
  then show "ulp x * 2 ^ 52 = 2 powr of_int (expo x)"
    by (simp only: p) simp
  have "ulp x * 2 powr 53 = 2 powr (of_int (expo x - 52) + 53)"
    by (simp only: ulp_def powr_add)
  then show "ulp x * 2 ^ 53 = 2 powr of_int (expo x + 1)"
    by (simp only: p) (simp add: add.commute)
qed

lemma of_int_rhe_le:
  assumes "y \<le> of_int n"
  shows "of_int (rhe y) \<le> (of_int n :: real)"
proof -
  have "rhe y \<le> rhe (of_int n)" using assms by (rule rhe_mono)
  then show ?thesis by (simp only: rhe_of_int of_int_le_iff)
qed

lemma of_int_rhe_ge:
  assumes "of_int n \<le> y"
  shows "(of_int n :: real) \<le> of_int (rhe y)"
proof -
  have "rhe (of_int n) \<le> rhe y" using assms by (rule rhe_mono)
  then show ?thesis by (simp only: rhe_of_int of_int_le_iff)
qed

lemma fl_upper:
  assumes "0 < x"
  shows "fl x \<le> 2 powr of_int (expo x + 1)"
proof -
  define P :: int where "P = 2 ^ 53"
  have P: "ulp x * of_int P = 2 powr of_int (expo x + 1)"
    unfolding P_def using ulp_scale(2)[of x] by simp
  have "x < ulp x * of_int P" using expo_upper[of x] assms by (simp only: P) simp
  then have "x / ulp x \<le> of_int P"
    using ulp_pos[of x] by (simp add: pos_divide_le_eq mult.commute)
  then have "of_int (rhe (x / ulp x)) \<le> (of_int P :: real)" by (rule of_int_rhe_le)
  then have "ulp x * of_int (rhe (x / ulp x)) \<le> ulp x * of_int P"
    using ulp_pos[of x] by (intro mult_left_mono) simp_all
  then show ?thesis using assms by (simp only: P fl_def) simp
qed

lemma fl_lower:
  assumes "0 < x" and "- 1022 < expo x"
  shows "2 powr of_int (expo x) \<le> fl x"
proof -
  define P :: int where "P = 2 ^ 52"
  have P: "ulp x * of_int P = 2 powr of_int (expo x)"
    unfolding P_def using ulp_scale(1)[of x] by simp
  have "ulp x * of_int P \<le> x" using expo_lower[of x] assms by (simp only: P) simp
  then have "of_int P \<le> x / ulp x"
    using ulp_pos[of x] by (simp add: pos_le_divide_eq mult.commute)
  then have "(of_int P :: real) \<le> of_int (rhe (x / ulp x))" by (rule of_int_rhe_ge)
  then have "ulp x * of_int P \<le> ulp x * of_int (rhe (x / ulp x))"
    using ulp_pos[of x] by (intro mult_left_mono) simp_all
  then show ?thesis using assms by (simp only: P fl_def) simp
qed

lemma fl_mono_pos:
  assumes "0 < x" and "x \<le> y"
  shows "fl x \<le> fl y"
proof -
  have y: "0 < y" using assms by linarith
  have "expo x \<le> expo y" using assms by (intro expo_mono) simp_all
  then consider "expo x = expo y" | "expo x < expo y" by linarith
  then show ?thesis
  proof cases
    case 1
    then have u: "ulp x = ulp y" by (simp add: ulp_def)
    have "x / ulp y \<le> y / ulp y" using assms(2) ulp_pos[of y] by (simp add: divide_right_mono)
    then have "rhe (x / ulp y) \<le> rhe (y / ulp y)" by (rule rhe_mono)
    then have "ulp y * of_int (rhe (x / ulp y)) \<le> ulp y * of_int (rhe (y / ulp y))"
      using ulp_pos[of y] by (intro mult_left_mono) simp_all
    then show ?thesis using assms(1) y by (simp add: fl_def u)
  next
    case 2
    then have "- 1022 < expo y" using expo_ge[of x] by linarith
    then have "2 powr of_int (expo y) \<le> fl y" using y by (intro fl_lower)
    moreover have "(2::real) powr of_int (expo x + 1) \<le> 2 powr of_int (expo y)"
      using 2 by simp
    ultimately show ?thesis using fl_upper[OF assms(1)] by linarith
  qed
qed

lemma fl_mono:
  assumes "x \<le> y"
  shows "fl x \<le> fl y"
proof -
  consider "0 < x" | "x \<le> 0" "0 \<le> y" | "y < 0" using assms by linarith
  then show ?thesis
  proof cases
    case 1
    then show ?thesis using assms by (rule fl_mono_pos)
  next
    case 2
    have "0 \<le> fl (- x)" using 2(1) by (intro fl_nonneg) simp
    then have "fl x \<le> 0" by (simp add: fl_minus)
    then show ?thesis using fl_nonneg[OF 2(2)] by linarith
  next
    case 3
    then have "fl (- y) \<le> fl (- x)" using assms by (intro fl_mono_pos) simp_all
    then show ?thesis by (simp add: fl_minus)
  qed
qed



subsection \<open>Evaluation and representable numbers\<close>

lemma fl_eval:
  assumes "2 ^ 52 \<le> \<bar>x\<bar> * 2 ^ n" and "\<bar>x\<bar> * 2 ^ n < 2 ^ 53" and "n \<le> 1074"
    and "rhe (x * 2 ^ n) = m"
  shows "fl x = of_int m / 2 ^ n"
proof -
  define k :: int where "k = 52 - int n"
  have pn: "(2::real) ^ n = 2 powr of_int (int n)"
    by (simp add: powr_realpow)
  have p52: "(2::real) ^ 52 = 2 powr 52" and p53: "(2::real) ^ 53 = 2 powr 53" by simp_all
  have k1: "2 powr of_int k = (2::real) ^ 52 / 2 ^ n"
    unfolding k_def pn p52 by (simp add: powr_diff)
  have k2: "2 powr of_int (k + 1) = (2::real) ^ 53 / 2 ^ n"
    unfolding k_def pn p53 by (simp add: powr_diff)
  have "2 powr of_int k \<le> \<bar>x\<bar>"
    unfolding k1 using assms(1) by (simp add: pos_divide_le_eq)
  moreover have "\<bar>x\<bar> < 2 powr of_int (k + 1)"
    unfolding k2 using assms(2) by (simp add: pos_less_divide_eq)
  moreover have "- 1022 \<le> k" using assms(3) by (simp add: k_def)
  ultimately have e: "expo x = k" by (rule expo_eq)
  have u: "ulp x = 1 / 2 ^ n"
    unfolding ulp_def e k_def pn by (simp add: powr_minus_divide)
  have x: "x \<noteq> 0" using assms(1) by auto
  show ?thesis using x assms(4) by (simp add: fl_def u)
qed

lemma fl_representable:
  assumes "\<bar>m\<bar> < 2 ^ 53" and "- 1074 \<le> e"
  shows "fl (of_int m * 2 powr of_int e) = of_int m * 2 powr of_int e"
proof (cases "m = 0")
  case True
  then show ?thesis by simp
next
  case False
  define x :: real where "x = of_int m * 2 powr of_int e"
  have x0: "x \<noteq> 0" using False by (simp add: x_def)
  have "\<bar>of_int m :: real\<bar> < 2 ^ 53"
    using assms(1) by (metis of_int_abs of_int_less_iff of_int_numeral of_int_power)
  then have "\<bar>x\<bar> < 2 ^ 53 * 2 powr of_int e"
    by (simp add: x_def abs_mult)
  also have "\<dots> = 2 powr of_int (e + 53)"
  proof -
    have "(2::real) ^ 53 = 2 powr 53" by simp
    then show ?thesis by (simp only: powr_add[symmetric]) (simp add: add.commute)
  qed
  finally have ub: "\<bar>x\<bar> < 2 powr of_int (e + 53)" .
  have "log 2 \<bar>x\<bar> < of_int (e + 53)" using ub x0 by (simp add: log_less_iff)
  then have "\<lfloor>log 2 \<bar>x\<bar>\<rfloor> < e + 53" by linarith
  then have k: "expo x \<le> e + 52" using assms(2) by (simp add: expo_def)
  define j where "j = nat (e + 52 - expo x)"
  have j: "int j = e + 52 - expo x" using k by (simp add: j_def)
  have "x / ulp x = of_int m * (2 powr of_int e / 2 powr of_int (expo x - 52))"
    by (simp add: x_def ulp_def)
  also have "2 powr of_int e / 2 powr of_int (expo x - 52) = (2::real) powr of_int (int j)"
    unfolding j by (simp add: powr_diff[symmetric] algebra_simps)
  also have "\<dots> = 2 ^ j" by (simp add: powr_realpow)
  finally have q: "x / ulp x = of_int (m * 2 ^ j)" by simp
  have "fl x = ulp x * of_int (rhe (x / ulp x))" using x0 by (simp add: fl_def)
  also have "\<dots> = ulp x * (x / ulp x)" unfolding q by (simp only: rhe_of_int)
  also have "\<dots> = x" using ulp_pos[of x] by simp
  finally show ?thesis by (simp add: x_def)
qed

lemma fl_dyadic:
  assumes "\<bar>m\<bar> < 2 ^ 53" and "j \<le> 1074"
  shows "fl (of_int m / 2 ^ j) = of_int m / 2 ^ j"
proof -
  have "(2::real) powr of_int (- int j) = 1 / 2 ^ j"
    by (simp add: powr_minus_divide powr_realpow)
  then show ?thesis
    using fl_representable[OF assms(1), of "- int j"] assms(2) by simp
qed

lemma fl_of_int:
  assumes "\<bar>m\<bar> < 2 ^ 53"
  shows "fl (of_int m) = of_int m"
  using fl_dyadic[OF assms, of 0] by simp

lemma fl_one [simp]: "fl 1 = 1"
  using fl_of_int[of 1] by simp

lemma rhe_abs_le:
  assumes "x \<noteq> 0"
  shows "\<bar>rhe (x / ulp x)\<bar> \<le> 2 ^ 53"
proof -
  have pos: "rhe (y / ulp y) \<le> 2 ^ 53 \<and> 0 \<le> rhe (y / ulp y)" if "0 < y" for y
  proof -
    have "y < ulp y * of_int (2 ^ 53)"
      using expo_upper[of y] that ulp_scale(2)[of y] by simp
    then have "y / ulp y \<le> of_int (2 ^ 53)"
      using ulp_pos[of y] by (simp add: pos_divide_le_eq mult.commute)
    then have "rhe (y / ulp y) \<le> rhe (of_int (2 ^ 53))" by (rule rhe_mono)
    moreover have "rhe (of_int 0) \<le> rhe (y / ulp y)"
      using that ulp_pos[of y] by (intro rhe_mono) simp
    ultimately show ?thesis by (simp only: rhe_of_int)
  qed
  show ?thesis
  proof (cases "0 < x")
    case True
    then show ?thesis using pos[of x] by simp
  next
    case False
    then have "0 < - x" using assms by simp
    from pos[OF this] show ?thesis by (simp add: rhe_minus)
  qed
qed

lemma fl_idem: "fl (fl x) = fl x"
proof (cases "x = 0")
  case True
  then show ?thesis by simp
next
  case False
  define r where "r = rhe (x / ulp x)"
  have f: "fl x = of_int r * 2 powr of_int (expo x - 52)"
    using False by (simp add: fl_def r_def ulp_def)
  have r: "\<bar>r\<bar> \<le> 2 ^ 53" unfolding r_def using False by (rule rhe_abs_le)
  show ?thesis
  proof (cases "\<bar>r\<bar> < 2 ^ 53")
    case True
    show ?thesis
      unfolding f using expo_ge[of x] by (intro fl_representable[OF True]) simp
  next
    case False
    then have "\<bar>r\<bar> = 2 ^ 53" using r by linarith
    then consider "r = 2 ^ 53" | "r = - (2 ^ 53)" by linarith
    then have "\<exists>s. \<bar>s\<bar> < 2 ^ 53 \<and> (of_int r :: real) = of_int s * 2"
    proof cases
      case 1
      then have "\<bar>2 ^ 52 :: int\<bar> < 2 ^ 53 \<and> (of_int r :: real) = of_int (2 ^ 52) * 2" by simp
      then show ?thesis by blast
    next
      case 2
      then have "\<bar>- (2 ^ 52) :: int\<bar> < 2 ^ 53 \<and> (of_int r :: real) = of_int (- (2 ^ 52)) * 2" by simp
      then show ?thesis by blast
    qed
    then obtain s where s: "\<bar>s\<bar> < 2 ^ 53" "(of_int r :: real) = of_int s * 2" by blast
    have "(2::real) * 2 powr of_int (expo x - 52) = 2 powr of_int (expo x - 51)"
    proof -
      have "(2::real) = 2 powr 1" by simp
      then have "(2::real) * 2 powr of_int (expo x - 52) = 2 powr (1 + of_int (expo x - 52))"
        by (metis powr_add)
      then show ?thesis by (simp add: algebra_simps)
    qed
    then have f': "fl x = of_int s * 2 powr of_int (expo x - 51)"
      unfolding f s(2) by simp
    show ?thesis
      unfolding f' using expo_ge[of x] by (intro fl_representable[OF s(1)]) simp
  qed
qed

lemma is_double_fl [simp]: "is_double (fl x)"
  by (simp add: is_double_def fl_idem)

lemma is_double_minus: "is_double x \<Longrightarrow> is_double (- x)"
  by (simp add: is_double_def fl_minus)

lemma fl_le_double:
  assumes "x \<le> d" and "is_double d"
  shows "fl x \<le> d"
  using fl_mono[OF assms(1)] assms(2) by (simp add: is_double_def)

lemma fl_ge_double:
  assumes "d \<le> x" and "is_double d"
  shows "d \<le> fl x"
  using fl_mono[OF assms(1)] assms(2) by (simp add: is_double_def)

text \<open>Two rules to evaluate \<open>fl\<close> at a given number.\<close>

lemma fl_exact:
  assumes "x = of_int m / 2 ^ j" and "\<bar>m\<bar> < 2 ^ 53" and "j \<le> 1074"
  shows "fl x = x"
  unfolding assms(1) using assms(2,3) by (rule fl_dyadic)

lemma fl_round:
  assumes "x = y" and "2 ^ 52 \<le> \<bar>y\<bar> * 2 ^ n" and "\<bar>y\<bar> * 2 ^ n < 2 ^ 53" and "n \<le> 1074"
    and "rhe (y * 2 ^ n) = m" and "r = of_int m / 2 ^ n"
  shows "fl x = r"
  unfolding assms(1) assms(6) using assms(2-5) by (rule fl_eval)


text \<open>The normalising idiom on doubles stays on the strip.\<close>

lemma wrap64_range:
  assumes "0 < w"
  shows "0 \<le> wrap64 v w" "wrap64 v w < w"
proof -
  have "0 \<le> js_rem v w + w" using js_rem_abs_less[OF assms, of v] by linarith
  then have "0 \<le> fl (js_rem v w + w)" by (rule fl_nonneg)
  then show "0 \<le> wrap64 v w" "wrap64 v w < w"
    unfolding wrap64_def by (rule js_rem_range[OF assms])+
qed






section \<open>Shortest path on the wrapping strip\<close>













section \<open>Selecting an item of the marquee\<close>

lemma wrap_25: "wrap 25 100 = 25"
  by (simp add: wrap_idem)

lemma delta_5_25: "shortestWrappingDelta 5 25 100 = 20"
  by (simp add: shortestWrappingDelta_def js_rem_def js_trunc_def Let_def)

text \<open>
  Claim C6.  On a strip of length 100 with the offset at 5, selecting an item of width 10
  whose base position is 70 (its centre at 75) computes the target offset 25 and installs
  a strip-shift animation of delta 20, the direct way (the other way round is longer),
  starting at offset 5.
\<close>

theorem handleSelect_scenario:
  assumes "totalWidth lay = 100"
    and "basePositions lay ! i = 70" and "scaledWidths lay ! i = 10"
    and "marqueeOffset m = 5" and "selectedIndex m \<noteq> i"
  shows "centerOffset lay i = 25
       \<and> (\<exists>a. offsetAnim (handleSelect lay i m) = Some a \<and> delta a = 20 \<and> startOffset a = 5
              \<and> startTime a = None \<and> duration a = STRIP_SHIFT_MS
              \<and> delta a = centerOffset lay i - marqueeOffset m
              \<and> \<bar>delta a\<bar> < \<bar>delta a - totalWidth lay\<bar>)
       \<and> selectedIndex (handleSelect lay i m) = i
       \<and> prevIndex (handleSelect lay i m) = Some (selectedIndex m)"
proof -
  have c: "centerOffset lay i = 25"
    using assms by (simp add: centerOffset_def wrap_25)
  show ?thesis
    using assms by (simp add: c delta_5_25 handleSelect_def Let_def)
qed

theorem handleSelect_scenario_witness:
  "totalWidth scenario_layout = 100 \<and> basePositions scenario_layout ! 3 = 70
   \<and> scaledWidths scenario_layout ! 3 = 10 \<and> marqueeOffset scenario_marquee = 5
   \<and> selectedIndex scenario_marquee \<noteq> 3
   \<and> offsetAnim (handleSelect scenario_layout 3 scenario_marquee)
       = Some \<lparr> startOffset = 5, delta = 20, startTime = None, duration = 700,
                startDepthScale = 1, startTop = 6 \<rparr>"
proof -
  have h: "totalWidth scenario_layout = 100" "basePositions scenario_layout ! 3 = 70"
    "scaledWidths scenario_layout ! 3 = 10" "marqueeOffset scenario_marquee = 5"
    "selectedIndex scenario_marquee \<noteq> 3"
    by (simp_all add: scenario_layout_def scenario_marquee_def)
  from handleSelect_scenario[OF h]
  obtain a where a: "offsetAnim (handleSelect scenario_layout 3 scenario_marquee) = Some a"
    "delta a = 20" "startOffset a = 5" "startTime a = None" "duration a = STRIP_SHIFT_MS"
    by blast
  have "startDepthScale a = 1" "startTop a = 6"
    using a(1) h(5) by (auto simp add: handleSelect_def Let_def scenario_layout_def scenario_marquee_def)
  then have "a = \<lparr> startOffset = 5, delta = 20, startTime = None, duration = 700,
                startDepthScale = 1, startTop = 6 \<rparr>"
    using a by (simp add: STRIP_SHIFT_MS_def)
  then show ?thesis using h a(1) by simp
qed

text \<open>The earlier copy of the handler aims at offset 20 in the same scenario.\<close>

lemma selectShift_edge_scenario:
  "selectShift_edge scenario_layout 3 5 = (20, 15)"
  by (simp add: selectShift_edge_def scenario_layout_def wrap_idem
      shortestWrappingDelta_def js_rem_def js_trunc_def Let_def)

section \<open>Depth scale\<close>

lemma fl_DEPTH_SCALE_CENTER: "fl DEPTH_SCALE_CENTER = 5404319552844595 / 2 ^ 52"
  unfolding DEPTH_SCALE_CENTER_def
  using fl_eval[where x = "12 / 10" and n = 52 and m = 5404319552844595] by (simp add: rhe_def)

lemma fl_DEPTH_SCALE_EDGE: "fl DEPTH_SCALE_EDGE = 7656119366529843 / 2 ^ 53"
  unfolding DEPTH_SCALE_EDGE_def
  using fl_eval[where x = "85 / 100" and n = 53 and m = 7656119366529843] by (simp add: rhe_def)

lemma fl_DEPTH_EASING_POWER: "fl DEPTH_EASING_POWER = 8556839292003942 / 2 ^ 52"
  unfolding DEPTH_EASING_POWER_def
  using fl_eval[where x = "19 / 10" and n = 52 and m = 8556839292003942] by (simp add: rhe_def)

lemma depth_span: "fl (fl DEPTH_SCALE_CENTER - fl DEPTH_SCALE_EDGE) = 3152519739159347 / 2 ^ 53"
proof -
  have "fl (fl DEPTH_SCALE_CENTER - fl DEPTH_SCALE_EDGE) = fl DEPTH_SCALE_CENTER - fl DEPTH_SCALE_EDGE"
    by (rule fl_exact[where m = 3152519739159347 and j = 53])
       (simp_all add: fl_DEPTH_SCALE_CENTER fl_DEPTH_SCALE_EDGE)
  also have "\<dots> = 3152519739159347 / 2 ^ 53"
    by (simp add: fl_DEPTH_SCALE_CENTER fl_DEPTH_SCALE_EDGE)
  finally show ?thesis .
qed

lemma depth_top: "fl (fl DEPTH_SCALE_EDGE + 3152519739159347 / 2 ^ 53) = fl DEPTH_SCALE_CENTER"
proof -
  have "fl (fl DEPTH_SCALE_EDGE + 3152519739159347 / 2 ^ 53)
          = fl DEPTH_SCALE_EDGE + 3152519739159347 / 2 ^ 53"
    by (rule fl_exact[where m = 5404319552844595 and j = 52]) (simp_all add: fl_DEPTH_SCALE_EDGE)
  also have "\<dots> = fl DEPTH_SCALE_CENTER"
    by (simp add: fl_DEPTH_SCALE_CENTER fl_DEPTH_SCALE_EDGE)
  finally show ?thesis .
qed

lemma pow64_unit:
  assumes "0 \<le> p" "p \<le> 1" "0 \<le> e"
  shows "0 \<le> pow64 p e" "pow64 p e \<le> 1"
proof -
  have "0 \<le> p powr e" by simp
  then show "0 \<le> pow64 p e" unfolding pow64_def by (rule fl_nonneg)
  have "p powr e \<le> 1 powr e" using assms by (intro powr_mono2) simp_all
  then have "p powr e \<le> 1" by simp
  then have "fl (p powr e) \<le> fl 1" by (rule fl_mono)
  then show "pow64 p e \<le> 1" by (simp add: pow64_def)
qed

text \<open>What \<^verbatim>\<open>computeDepthScale\<close> returns, given the rounded power \<open>s\<close>.\<close>

lemma depth_blend_range:
  assumes "0 \<le> s" "s \<le> 1"
  shows "fl DEPTH_SCALE_EDGE
           \<le> fl (fl DEPTH_SCALE_EDGE + fl (s * fl (fl DEPTH_SCALE_CENTER - fl DEPTH_SCALE_EDGE)))"
    and "fl (fl DEPTH_SCALE_EDGE + fl (s * fl (fl DEPTH_SCALE_CENTER - fl DEPTH_SCALE_EDGE)))
           \<le> fl DEPTH_SCALE_CENTER"
proof -
  let ?K = "3152519739159347 / 2 ^ 53 :: real"
  have K: "fl ?K = ?K" using fl_dyadic[of 3152519739159347 53] by simp
  have "0 \<le> s * ?K" using assms by simp
  then have m0: "0 \<le> fl (s * ?K)" by (rule fl_nonneg)
  have "s * ?K \<le> ?K" using assms by simp
  then have "fl (s * ?K) \<le> fl ?K" by (rule fl_mono)
  then have m1: "fl (s * ?K) \<le> ?K" by (simp only: K)
  have "fl (fl DEPTH_SCALE_EDGE) \<le> fl (fl DEPTH_SCALE_EDGE + fl (s * ?K))"
    using m0 by (intro fl_mono) simp
  then show "fl DEPTH_SCALE_EDGE
           \<le> fl (fl DEPTH_SCALE_EDGE + fl (s * fl (fl DEPTH_SCALE_CENTER - fl DEPTH_SCALE_EDGE)))"
    by (simp only: fl_idem depth_span)
  have "fl (fl DEPTH_SCALE_EDGE + fl (s * ?K)) \<le> fl (fl DEPTH_SCALE_EDGE + ?K)"
    using m1 by (intro fl_mono) simp
  then show "fl (fl DEPTH_SCALE_EDGE + fl (s * fl (fl DEPTH_SCALE_CENTER - fl DEPTH_SCALE_EDGE)))
           \<le> fl DEPTH_SCALE_CENTER"
    by (simp only: depth_span depth_top)
qed

lemma proximity64_unit:
  "0 \<le> max 0 (fl (1 - fl (\<bar>fl (x - 50)\<bar> / DEPTH_FALLOFF_HALF)))"
  "max 0 (fl (1 - fl (\<bar>fl (x - 50)\<bar> / DEPTH_FALLOFF_HALF))) \<le> 1"
proof -
  show "0 \<le> max 0 (fl (1 - fl (\<bar>fl (x - 50)\<bar> / DEPTH_FALLOFF_HALF)))" by simp
  have "0 \<le> \<bar>fl (x - 50)\<bar> / DEPTH_FALLOFF_HALF" by (simp add: DEPTH_FALLOFF_HALF_def)
  then have "0 \<le> fl (\<bar>fl (x - 50)\<bar> / DEPTH_FALLOFF_HALF)" by (rule fl_nonneg)
  then have "fl (1 - fl (\<bar>fl (x - 50)\<bar> / DEPTH_FALLOFF_HALF)) \<le> fl 1"
    by (intro fl_mono) simp
  then show "max 0 (fl (1 - fl (\<bar>fl (x - 50)\<bar> / DEPTH_FALLOFF_HALF))) \<le> 1" by simp
qed

lemma proximity64_edge:
  assumes "DEPTH_FALLOFF_HALF \<le> \<bar>x - 50\<bar>"
  shows "max 0 (fl (1 - fl (\<bar>fl (x - 50)\<bar> / DEPTH_FALLOFF_HALF))) = 0"
proof -
  have d55: "is_double 55" unfolding is_double_def using fl_of_int[of 55] by simp
  have "55 \<le> \<bar>fl (x - 50)\<bar>"
  proof (cases "0 \<le> x - 50")
    case True
    then have "55 \<le> x - 50" using assms by (simp add: DEPTH_FALLOFF_HALF_def)
    then have "55 \<le> fl (x - 50)" using d55 by (rule fl_ge_double)
    then show ?thesis by simp
  next
    case False
    then have "x - 50 \<le> - 55" using assms by (simp add: DEPTH_FALLOFF_HALF_def)
    then have "fl (x - 50) \<le> - 55" using is_double_minus[OF d55] by (rule fl_le_double)
    then show ?thesis by simp
  qed
  then have "1 \<le> \<bar>fl (x - 50)\<bar> / DEPTH_FALLOFF_HALF" by (simp add: DEPTH_FALLOFF_HALF_def)
  then have "fl 1 \<le> fl (\<bar>fl (x - 50)\<bar> / DEPTH_FALLOFF_HALF)" by (rule fl_mono)
  then have "1 - fl (\<bar>fl (x - 50)\<bar> / DEPTH_FALLOFF_HALF) \<le> 0" by simp
  then have "fl (1 - fl (\<bar>fl (x - 50)\<bar> / DEPTH_FALLOFF_HALF)) \<le> fl 0" by (rule fl_mono)
  then show ?thesis by simp
qed

text \<open>
  Claim C10, as the code has it.  On doubles the depth scale of every horizontal centre
  lies between \<^verbatim>\<open>DEPTH_SCALE_EDGE\<close> and \<^verbatim>\<open>DEPTH_SCALE_CENTER\<close> (the doubles nearest
  to 0.85 and 1.2); it is \<^verbatim>\<open>DEPTH_SCALE_CENTER\<close> at the viewport centre 50, and
  \<^verbatim>\<open>DEPTH_SCALE_EDGE\<close> wherever the distance from the centre is at least
  \<^verbatim>\<open>DEPTH_FALLOFF_HALF\<close> = 55.  The centre is not the only input with the value
  \<^verbatim>\<open>DEPTH_SCALE_CENTER\<close>.
\<close>

theorem computeDepthScale64_range:
  "fl DEPTH_SCALE_EDGE \<le> computeDepthScale64 x \<and> computeDepthScale64 x \<le> fl DEPTH_SCALE_CENTER
   \<and> computeDepthScale64 50 = fl DEPTH_SCALE_CENTER
   \<and> (\<bar>x - 50\<bar> \<ge> DEPTH_FALLOFF_HALF \<longrightarrow> computeDepthScale64 x = fl DEPTH_SCALE_EDGE)
   \<and> fl DEPTH_SCALE_EDGE = 7656119366529843 / 2 ^ 53
   \<and> fl DEPTH_SCALE_CENTER = 5404319552844595 / 2 ^ 52 \<and> DEPTH_FALLOFF_HALF = 55"
proof -
  define p where "p = max 0 (fl (1 - fl (\<bar>fl (x - 50)\<bar> / DEPTH_FALLOFF_HALF)))"
  define s where "s = pow64 p (fl DEPTH_EASING_POWER)"
  have e: "0 \<le> fl DEPTH_EASING_POWER" by (simp add: fl_DEPTH_EASING_POWER)
  have p: "0 \<le> p" "p \<le> 1" unfolding p_def by (rule proximity64_unit)+
  have s: "0 \<le> s" "s \<le> 1" unfolding s_def by (rule pow64_unit[OF p e])+
  have ds: "computeDepthScale64 x
     = fl (fl DEPTH_SCALE_EDGE + fl (s * fl (fl DEPTH_SCALE_CENTER - fl DEPTH_SCALE_EDGE)))"
    by (simp add: computeDepthScale64_def Let_def s_def p_def)
  have lo: "fl DEPTH_SCALE_EDGE \<le> computeDepthScale64 x"
    unfolding ds by (rule depth_blend_range(1)[OF s])
  have hi: "computeDepthScale64 x \<le> fl DEPTH_SCALE_CENTER"
    unfolding ds by (rule depth_blend_range(2)[OF s])
  have K: "fl (3152519739159347 / 2 ^ 53) = 3152519739159347 / 2 ^ 53"
    by (rule fl_exact[where m = 3152519739159347 and j = 53]) simp_all
  have "max 0 (fl (1 - fl (\<bar>fl (50 - 50)\<bar> / DEPTH_FALLOFF_HALF))) = 1" by simp
  moreover have "pow64 1 (fl DEPTH_EASING_POWER) = 1" by (simp add: pow64_def)
  ultimately have centre: "computeDepthScale64 50 = fl DEPTH_SCALE_CENTER"
    by (simp only: computeDepthScale64_def Let_def mult_1 depth_span K depth_top)
  have edge: "computeDepthScale64 x = fl DEPTH_SCALE_EDGE" if "\<bar>x - 50\<bar> \<ge> DEPTH_FALLOFF_HALF"
  proof -
    have "p = 0" unfolding p_def using that by (rule proximity64_edge)
    then have "s = 0" by (simp add: s_def pow64_def)
    then show ?thesis by (simp add: ds fl_idem)
  qed
  show ?thesis
  proof (intro conjI impI)
    show "fl DEPTH_SCALE_EDGE \<le> computeDepthScale64 x" by (rule lo)
    show "computeDepthScale64 x \<le> fl DEPTH_SCALE_CENTER" by (rule hi)
    show "computeDepthScale64 50 = fl DEPTH_SCALE_CENTER" by (rule centre)
    show "computeDepthScale64 x = fl DEPTH_SCALE_EDGE" if "\<bar>x - 50\<bar> \<ge> DEPTH_FALLOFF_HALF"
      using that by (rule edge)
    show "fl DEPTH_SCALE_EDGE = 7656119366529843 / 2 ^ 53" by (rule fl_DEPTH_SCALE_EDGE)
    show "fl DEPTH_SCALE_CENTER = 5404319552844595 / 2 ^ 52" by (rule fl_DEPTH_SCALE_CENTER)
    show "DEPTH_FALLOFF_HALF = 55" by (rule DEPTH_FALLOFF_HALF_def)
  qed
qed

theorem computeDepthScale64_range_witness:
  "computeDepthScale64 105 = 7656119366529843 / 2 ^ 53
   \<and> computeDepthScale64 50 = 5404319552844595 / 2 ^ 52"
proof -
  have "\<bar>105 - 50\<bar> \<ge> DEPTH_FALLOFF_HALF" by (simp add: DEPTH_FALLOFF_HALF_def)
  with computeDepthScale64_range[of 105] show ?thesis by metis
qed

text \<open>
  The double next to 50 is \<open>50 + 1 / 2 ^ 47\<close>.  There the proximity is the double below 1,
  its power lies between the two doubles below 1, and the blend rounds to
  \<^verbatim>\<open>DEPTH_SCALE_CENTER\<close>.
\<close>

lemma proximity64_near_centre:
  "max 0 (fl (1 - fl (\<bar>fl (50 + 1 / 2 ^ 47 - 50)\<bar> / DEPTH_FALLOFF_HALF))) = 1 - 1 / 2 ^ 53"
proof -
  have d: "fl (50 + 1 / 2 ^ 47 - 50) = 1 / 2 ^ 47"
    using fl_dyadic[of 1 47] by simp
  have q: "fl (\<bar>1 / 2 ^ 47\<bar> / DEPTH_FALLOFF_HALF) = 2620276146833743 / 2 ^ 104"
    by (rule fl_round[where y = "1 / (55 * 2 ^ 47)" and n = 105 and m = 5240552293667486])
       (simp_all add: rhe_def DEPTH_FALLOFF_HALF_def)
  have p: "fl (1 - 2620276146833743 / 2 ^ 104) = 9007199254740991 / 2 ^ 53"
    by (rule fl_round[where y = "1 - 2620276146833743 / 2 ^ 104" and n = 53
          and m = 9007199254740991]) (simp_all add: rhe_def)
  show ?thesis by (simp only: d q p) simp
qed

lemma pow64_near_one:
  assumes "1 \<le> e" "e \<le> 2"
  shows "1 - 1 / 2 ^ 52 \<le> pow64 (1 - 1 / 2 ^ 53) e" "pow64 (1 - 1 / 2 ^ 53) e \<le> 1 - 1 / 2 ^ 53"
proof -
  let ?p = "1 - 1 / 2 ^ 53 :: real"
  have p: "0 \<le> ?p" "?p \<le> 1" by simp_all
  have "?p powr 2 \<le> ?p powr e" using assms(2) p by (intro powr_mono') simp_all
  then have "?p ^ 2 \<le> ?p powr e" by simp
  then have "fl (?p ^ 2) \<le> fl (?p powr e)" by (rule fl_mono)
  moreover have "fl (?p ^ 2) = 1 - 1 / 2 ^ 52"
    by (rule fl_round[where y = "(9007199254740991 / 2 ^ 53) ^ 2" and n = 53
          and m = 9007199254740990]) (simp_all add: rhe_def power2_eq_square)
  ultimately show "1 - 1 / 2 ^ 52 \<le> pow64 ?p e" by (simp only: pow64_def)
  have "?p powr e \<le> ?p powr 1" using assms(1) p by (intro powr_mono') simp_all
  then have "?p powr e \<le> ?p" by simp
  then have "fl (?p powr e) \<le> fl ?p" by (rule fl_mono)
  moreover have "fl ?p = ?p"
    by (rule fl_exact[where m = 9007199254740991 and j = 53]) simp_all
  ultimately show "pow64 ?p e \<le> ?p" by (simp only: pow64_def)
qed

lemma depth_blend_near_one:
  assumes "1 - 1 / 2 ^ 52 \<le> s" "s \<le> 1 - 1 / 2 ^ 53"
  shows "fl (fl DEPTH_SCALE_EDGE + fl (s * fl (fl DEPTH_SCALE_CENTER - fl DEPTH_SCALE_EDGE)))
           = fl DEPTH_SCALE_CENTER"
proof -
  let ?K = "3152519739159347 / 2 ^ 53 :: real"
  let ?M = "6305039478318693 / 2 ^ 54 :: real"
  have lo: "fl ((1 - 1 / 2 ^ 52) * ?K) = ?M"
    by (rule fl_round[where y = "(1 - 1 / 2 ^ 52) * ?K" and n = 54 and m = 6305039478318693])
       (simp_all add: rhe_def)
  have hi: "fl ((1 - 1 / 2 ^ 53) * ?K) = ?M"
    by (rule fl_round[where y = "(1 - 1 / 2 ^ 53) * ?K" and n = 54 and m = 6305039478318693])
       (simp_all add: rhe_def)
  have "(1 - 1 / 2 ^ 52) * ?K \<le> s * ?K" using assms(1) by (intro mult_right_mono) simp_all
  then have "fl ((1 - 1 / 2 ^ 52) * ?K) \<le> fl (s * ?K)" by (rule fl_mono)
  moreover have "s * ?K \<le> (1 - 1 / 2 ^ 53) * ?K" using assms(2) by (intro mult_right_mono) simp_all
  then have "fl (s * ?K) \<le> fl ((1 - 1 / 2 ^ 53) * ?K)" by (rule fl_mono)
  ultimately have m: "fl (s * ?K) = ?M" unfolding lo hi by (rule order_antisym[rotated])
  have "fl (fl DEPTH_SCALE_EDGE + ?M) = fl DEPTH_SCALE_CENTER"
    by (rule fl_round[where y = "7656119366529843 / 2 ^ 53 + ?M" and n = 52
          and m = 5404319552844595])
       (simp_all add: rhe_def fl_DEPTH_SCALE_EDGE fl_DEPTH_SCALE_CENTER)
  then show ?thesis unfolding depth_span m .
qed

text \<open>
  Claim C10 as stated does not hold: the depth scale is \<^verbatim>\<open>DEPTH_SCALE_CENTER\<close> also at
  the double next to 50, so it does not take that value at the centre only.
\<close>

theorem computeDepthScale64_centre_not_unique:
  "computeDepthScale64 (50 + 1 / 2 ^ 47) = fl DEPTH_SCALE_CENTER
   \<and> 50 + 1 / 2 ^ 47 \<noteq> (50 :: real) \<and> is_double (50 + 1 / 2 ^ 47)"
proof -
  have e: "1 \<le> fl DEPTH_EASING_POWER" "fl DEPTH_EASING_POWER \<le> 2"
    by (simp_all add: fl_DEPTH_EASING_POWER)
  have "computeDepthScale64 (50 + 1 / 2 ^ 47)
     = fl (fl DEPTH_SCALE_EDGE
           + fl (pow64 (1 - 1 / 2 ^ 53) (fl DEPTH_EASING_POWER)
                 * fl (fl DEPTH_SCALE_CENTER - fl DEPTH_SCALE_EDGE)))"
    by (simp only: computeDepthScale64_def Let_def proximity64_near_centre)
  also have "\<dots> = fl DEPTH_SCALE_CENTER"
    by (rule depth_blend_near_one) (rule pow64_near_one[OF e])+
  finally have 1: "computeDepthScale64 (50 + 1 / 2 ^ 47) = fl DEPTH_SCALE_CENTER" .
  have 2: "50 + 1 / 2 ^ 47 \<noteq> (50 :: real)" by simp
  have "fl (50 + 1 / 2 ^ 47) = 50 + 1 / 2 ^ 47"
    by (rule fl_exact[where m = 7036874417766401 and j = 47]) simp_all
  then have 3: "is_double (50 + 1 / 2 ^ 47)" by (simp only: is_double_def)
  show ?thesis using 1 2 3 by blast
qed

section \<open>Offset range on doubles\<close>

lemma tick64_drift:
  assumes "offsetAnim m = None" "\<not> isTransitioning m" "scrollProgressRef m = sectionTop m"
  shows "marqueeOffset (tick64 lay ts m)
           = (let off = fl (marqueeOffset m + driftStep64 ts m)
              in if off \<ge> totalWidth lay then fl (off - totalWidth lay)
                 else if off < 0 then fl (off + totalWidth lay)
                 else off)"
    and "offsetAnim (tick64 lay ts m) = None"
  using assms by (simp_all add: tick64_def Let_def)

lemma tick64_frame:
  "lastTime (tick64 lay ts m) = ts" "mouseX (tick64 lay ts m) = mouseX m"
  "isTransitioning (tick64 lay ts m) = isTransitioning m"
  "scrollProgressRef (tick64 lay ts m) = scrollProgressRef m"
  "sectionTop (tick64 lay ts m) = sectionTop m"
  by (simp_all add: tick64_def Let_def split: option.splits)

lemma handleMouseMove64_frame:
  "marqueeOffset (handleMouseMove64 x w m) = marqueeOffset m"
  "offsetAnim (handleMouseMove64 x w m) = offsetAnim m"
  "lastTime (handleMouseMove64 x w m) = lastTime m"
  "isTransitioning (handleMouseMove64 x w m) = isTransitioning m"
  "scrollProgressRef (handleMouseMove64 x w m) = scrollProgressRef m"
  "sectionTop (handleMouseMove64 x w m) = sectionTop m"
  by (simp_all add: handleMouseMove64_def)

text \<open>The animation branch ends with a remainder, which stays on the strip.\<close>

lemma tick64_anim_in_range:
  assumes "offsetAnim m = Some anim" "0 < totalWidth lay"
  shows "0 \<le> marqueeOffset (tick64 lay ts m)" "marqueeOffset (tick64 lay ts m) < totalWidth lay"
  using assms wrap64_range[OF assms(2)] by (simp_all add: tick64_def Let_def)

text \<open>The constants of the drift, and the share of a frame of 16 ms.\<close>

lemma fl_MARQUEE_BASE_SPEED: "fl MARQUEE_BASE_SPEED = 4611686018427388 / 2 ^ 59"
  unfolding MARQUEE_BASE_SPEED_def
  by (rule fl_round[where y = "8 / 1000" and n = 59 and m = 4611686018427388])
     (simp_all add: rhe_def)

lemma fl_MARQUEE_MOUSE_SPEED: "fl MARQUEE_MOUSE_SPEED = 5764607523034235 / 2 ^ 56"
  unfolding MARQUEE_MOUSE_SPEED_def
  by (rule fl_round[where y = "8 / 100" and n = 56 and m = 5764607523034235])
     (simp_all add: rhe_def)

lemma fl_frame_ms: "fl (1667 / 100) = 4692187861766636 / 2 ^ 48"
  by (rule fl_round[where y = "1667 / 100" and n = 48 and m = 4692187861766636])
     (simp_all add: rhe_def)

lemma frame_share_16: "fl (16 / fl (1667 / 100)) = 8645182248101731 / 2 ^ 53"
  unfolding fl_frame_ms
  by (rule fl_round[where y = "16 / (4692187861766636 / 2 ^ 48)" and n = 53
        and m = 8645182248101731]) (simp_all add: rhe_def)

lemma driftStep64_16:
  assumes "lastTime m \<noteq> 0" "timestamp - lastTime m = 16"
  shows "driftStep64 timestamp m
    = fl (fl (4611686018427388 / 2 ^ 59 + fl (mouseX m * (5764607523034235 / 2 ^ 56)))
          * (8645182248101731 / 2 ^ 53))"
proof -
  have "fl 16 = 16" using fl_of_int[of 16] by simp
  then have "frameDt64 timestamp m = 16" using assms by (simp add: frameDt64_def)
  then show ?thesis
    by (simp only: driftStep64_def Let_def fl_MARQUEE_BASE_SPEED fl_MARQUEE_MOUSE_SPEED
        frame_share_16)
qed

text \<open>The pointer at 475 and at 425 of 1000 pixels.\<close>

lemma pointer_475:
  "fl (fl (fl (475 / 1000) * 2) - 1) = - (7205759403792800 / 2 ^ 57)"
proof -
  have a: "fl (475 / 1000) = 8556839292003942 / 2 ^ 54"
    by (rule fl_round[where y = "475 / 1000" and n = 54 and m = 8556839292003942])
       (simp_all add: rhe_def)
  have b: "fl (8556839292003942 / 2 ^ 54 * 2) = 8556839292003942 / 2 ^ 53"
    by (rule fl_round[where y = "8556839292003942 / 2 ^ 53" and n = 53 and m = 8556839292003942])
       (simp_all add: rhe_def)
  have c: "fl (8556839292003942 / 2 ^ 53 - 1) = - (7205759403792800 / 2 ^ 57)"
    by (rule fl_round[where y = "8556839292003942 / 2 ^ 53 - 1" and n = 57
          and m = "- 7205759403792800"]) (simp_all add: rhe_def)
  show ?thesis unfolding a b c ..
qed

lemma pointer_425:
  "fl (fl (fl (425 / 1000) * 2) - 1) = - (5404319552844596 / 2 ^ 55)"
proof -
  have a: "fl (425 / 1000) = 7656119366529843 / 2 ^ 54"
    by (rule fl_round[where y = "425 / 1000" and n = 54 and m = 7656119366529843])
       (simp_all add: rhe_def)
  have b: "fl (7656119366529843 / 2 ^ 54 * 2) = 7656119366529843 / 2 ^ 53"
    by (rule fl_round[where y = "7656119366529843 / 2 ^ 53" and n = 53 and m = 7656119366529843])
       (simp_all add: rhe_def)
  have c: "fl (7656119366529843 / 2 ^ 53 - 1) = - (5404319552844596 / 2 ^ 55)"
    by (rule fl_round[where y = "7656119366529843 / 2 ^ 53 - 1" and n = 55
          and m = "- 5404319552844596"]) (simp_all add: rhe_def)
  show ?thesis unfolding a b c ..
qed

text \<open>The steps of the two frames.\<close>

lemma step_475:
  "fl (fl (4611686018427388 / 2 ^ 59
           + fl (- (7205759403792800 / 2 ^ 57) * (5764607523034235 / 2 ^ 56)))
       * (8645182248101731 / 2 ^ 53)) = 8852666622056165 / 2 ^ 61"
proof -
  have u: "fl (- (7205759403792800 / 2 ^ 57) * (5764607523034235 / 2 ^ 56))
             = - (4611686018427392 / 2 ^ 60)"
    by (rule fl_round[where y = "- (7205759403792800 / 2 ^ 57) * (5764607523034235 / 2 ^ 56)"
          and n = 60 and m = "- 4611686018427392"]) (simp_all add: rhe_def)
  have sp: "fl (4611686018427388 / 2 ^ 59 + - (4611686018427392 / 2 ^ 60))
             = 4611686018427384 / 2 ^ 60"
    by (rule fl_round[where y = "4611686018427388 / 2 ^ 59 - 4611686018427392 / 2 ^ 60"
          and n = 60 and m = 4611686018427384]) (simp_all add: rhe_def)
  have st: "fl (4611686018427384 / 2 ^ 60 * (8645182248101731 / 2 ^ 53))
             = 8852666622056165 / 2 ^ 61"
    by (rule fl_round[where y = "4611686018427384 / 2 ^ 60 * (8645182248101731 / 2 ^ 53)"
          and n = 61 and m = 8852666622056165]) (simp_all add: rhe_def)
  show ?thesis unfolding u sp st ..
qed

lemma step_425:
  "fl (fl (4611686018427388 / 2 ^ 59
           + fl (- (5404319552844596 / 2 ^ 55) * (5764607523034235 / 2 ^ 56)))
       * (8645182248101731 / 2 ^ 53)) = - (8852666622056177 / 2 ^ 61)"
proof -
  have u: "fl (- (5404319552844596 / 2 ^ 55) * (5764607523034235 / 2 ^ 56))
             = - (6917529027641083 / 2 ^ 59)"
    by (rule fl_round[where y = "- (5404319552844596 / 2 ^ 55) * (5764607523034235 / 2 ^ 56)"
          and n = 59 and m = "- 6917529027641083"]) (simp_all add: rhe_def)
  have sp: "fl (4611686018427388 / 2 ^ 59 + - (6917529027641083 / 2 ^ 59))
             = - (4611686018427390 / 2 ^ 60)"
    by (rule fl_round[where y = "4611686018427388 / 2 ^ 59 - 6917529027641083 / 2 ^ 59"
          and n = 60 and m = "- 4611686018427390"]) (simp_all add: rhe_def)
  have st: "fl (- (4611686018427390 / 2 ^ 60) * (8645182248101731 / 2 ^ 53))
             = - (8852666622056177 / 2 ^ 61)"
    by (rule fl_round[where y = "- (4611686018427390 / 2 ^ 60) * (8645182248101731 / 2 ^ 53)"
          and n = 61 and m = "- 8852666622056177"]) (simp_all add: rhe_def)
  show ?thesis unfolding u sp st ..
qed

lemma offset_after_475: "fl (0 + 8852666622056165 / 2 ^ 61) = 8852666622056165 / 2 ^ 61"
  by (rule fl_round[where y = "8852666622056165 / 2 ^ 61" and n = 61 and m = 8852666622056165])
     (simp_all add: rhe_def)

lemma offset_after_425:
  "fl (8852666622056165 / 2 ^ 61 + - (8852666622056177 / 2 ^ 61)) = - (3 / 2 ^ 59)"
  by (rule fl_round[where y = "- (3 / 2 ^ 59)" and n = 110 and m = "- 6755399441055744"])
     (simp_all add: rhe_def)

lemma offset_wrapped: "fl (- (3 / 2 ^ 59) + 100) = 100"
  by (rule fl_round[where y = "100 - 3 / 2 ^ 59" and n = 46 and m = 7036874417766400])
     (simp_all add: rhe_def)

text \<open>
  Claim C9 fails in the drift branch.  The strip of length 100 rests at offset 0.  A frame
  of 16 ms with the pointer at 475 of 1000 pixels moves the offset right, to about
  0.00384; the next frame of 16 ms, with the pointer at 425 of 1000 pixels, moves it left
  by a little more, to \<open>- 3 / 2 ^ 59\<close>.  The code then adds the strip length, and the sum
  rounds to 100: the offset is the strip length itself, outside \<open>[0, totalWidth)\<close>.  The
  animation branch normalises with \<^verbatim>\<open>((x % totalWidth) + totalWidth) % totalWidth\<close>
  instead and does stay on the strip (\<open>tick64_anim_in_range\<close>).
\<close>

theorem tick64_drift_reaches_totalWidth:
  "marqueeOffset (tick64 scenario_layout 1016 (handleMouseMove64 475 1000 resting_marquee))
     = 8852666622056165 / 2 ^ 61
   \<and> mouseX (handleMouseMove64 425 1000
               (tick64 scenario_layout 1016 (handleMouseMove64 475 1000 resting_marquee)))
     = - (5404319552844596 / 2 ^ 55)
   \<and> marqueeOffset
       (tick64 scenario_layout 1032
          (handleMouseMove64 425 1000
             (tick64 scenario_layout 1016 (handleMouseMove64 475 1000 resting_marquee))))
     = totalWidth scenario_layout
   \<and> totalWidth scenario_layout = 100"
proof -
  define m0 where "m0 = handleMouseMove64 475 1000 resting_marquee"
  define m1 where "m1 = tick64 scenario_layout 1016 m0"
  define m1' where "m1' = handleMouseMove64 425 1000 m1"
  have W: "totalWidth scenario_layout = 100" by (simp add: scenario_layout_def)
  have r: "offsetAnim resting_marquee = None" "\<not> isTransitioning resting_marquee"
    "scrollProgressRef resting_marquee = sectionTop resting_marquee"
    "lastTime resting_marquee = 1000" "marqueeOffset resting_marquee = 0"
    by (simp_all add: resting_marquee_def scenario_marquee_def)
  have m0: "offsetAnim m0 = None" "\<not> isTransitioning m0" "scrollProgressRef m0 = sectionTop m0"
    "lastTime m0 = 1000" "marqueeOffset m0 = 0"
    unfolding m0_def handleMouseMove64_frame by (rule r)+
  have x0: "mouseX m0 = - (7205759403792800 / 2 ^ 57)"
    unfolding m0_def by (simp only: handleMouseMove64_def pointer_475) simp
  have s0: "driftStep64 1016 m0 = 8852666622056165 / 2 ^ 61"
  proof -
    have "lastTime m0 \<noteq> 0" "1016 - lastTime m0 = 16" by (simp_all add: m0(4))
    from driftStep64_16[OF this] show ?thesis by (simp only: x0 step_475)
  qed
  have o1: "marqueeOffset m1 = 8852666622056165 / 2 ^ 61"
    unfolding m1_def tick64_drift(1)[OF m0(1-3)] m0(5) s0 offset_after_475 W Let_def by simp
  have m1: "offsetAnim m1' = None" "\<not> isTransitioning m1'"
    "scrollProgressRef m1' = sectionTop m1'" "lastTime m1' = 1016"
    unfolding m1'_def m1_def handleMouseMove64_frame tick64_frame tick64_drift(2)[OF m0(1-3)]
    using m0(2,3) by simp_all
  have o1': "marqueeOffset m1' = 8852666622056165 / 2 ^ 61"
    unfolding m1'_def handleMouseMove64_frame by (rule o1)
  have x1: "mouseX m1' = - (5404319552844596 / 2 ^ 55)"
    unfolding m1'_def by (simp only: handleMouseMove64_def pointer_425) simp
  have s1: "driftStep64 1032 m1' = - (8852666622056177 / 2 ^ 61)"
  proof -
    have "lastTime m1' \<noteq> 0" "1032 - lastTime m1' = 16" by (simp_all add: m1(4))
    from driftStep64_16[OF this] show ?thesis by (simp only: x1 step_425)
  qed
  have o2: "marqueeOffset (tick64 scenario_layout 1032 m1') = 100"
    unfolding tick64_drift(1)[OF m1(1-3)] o1' s1 offset_after_425 W Let_def
    using offset_wrapped by simp
  show ?thesis
    using o1 x1 o2 W unfolding m1'_def m1_def m0_def by simp
qed

section \<open>The strip is longer than the viewport\<close>

lemma fold_add_sum_list:
  fixes acc :: real
  shows "fold (\<lambda>b a. a + b) xs acc = acc + sum_list xs"
  by (induction xs arbitrary: acc) simp_all

lemma baseScale_pos:
  assumes "images \<noteq> []" and "\<forall>img \<in> set images. 0 \<le> img_width img"
  shows "0 < baseScale images"
proof -
  have "0 \<le> sum_list (map img_width images)"
    using assms(2) by (intro sum_list_nonneg) auto
  moreover have "0 < length images" using assms(1) by simp
  ultimately show ?thesis
    by (simp add: baseScale_def Let_def fold_add_sum_list MAX_VISIBLE_def MARQUEE_GAP_VW_def
        divide_pos_pos add_nonneg_pos)
qed

lemma marqueeLayout_Some:
  assumes "images \<noteq> []"
  shows "\<exists>lay. marqueeLayout images = Some lay"
  using assms by (simp add: marqueeLayout_def Let_def)

lemma marqueeLayout_total:
  assumes "marqueeLayout images = Some lay"
  shows "100 + maxScaledWidth lay + MARQUEE_GAP_VW * baseScale images \<le> totalWidth lay"
    and "maxScaledWidth lay = Max (set (scaledWidths lay))"
    and "length (scaledWidths lay) = length images"
    and "length (basePositions lay) = length (scaledWidths lay)"
proof -
  have ne: "images \<noteq> []" using assms by (auto simp add: marqueeLayout_def)
  have lay: "lay = the (marqueeLayout images)" using assms by simp
  show "100 + maxScaledWidth lay + MARQUEE_GAP_VW * baseScale images \<le> totalWidth lay"
    unfolding lay using ne by (simp add: marqueeLayout_def Let_def)
  show "maxScaledWidth lay = Max (set (scaledWidths lay))"
    unfolding lay using ne by (simp add: marqueeLayout_def Let_def)
  show "length (scaledWidths lay) = length images"
    unfolding lay using ne by (simp add: marqueeLayout_def Let_def)
  have "length (place c g ws) = length ws" for c g ws
    by (induction ws arbitrary: c) simp_all
  then show "length (basePositions lay) = length (scaledWidths lay)"
    unfolding lay using ne by (simp add: marqueeLayout_def Let_def)
qed

text \<open>
  Claim C8.  For every non-empty list of images (of non-negative width) the layout exists
  and its strip is at least as long as the viewport, 100vw, plus the widest scaled item.
\<close>

theorem marqueeLayout_covers_viewport:
  assumes "images \<noteq> []" and "\<forall>img \<in> set images. 0 \<le> img_width img"
  shows "\<exists>lay. marqueeLayout images = Some lay
           \<and> 100 + Max (set (scaledWidths lay)) \<le> totalWidth lay
           \<and> length (scaledWidths lay) = length images"
proof -
  obtain lay where l: "marqueeLayout images = Some lay"
    using marqueeLayout_Some[OF assms(1)] by blast
  have "0 < MARQUEE_GAP_VW * baseScale images"
    using baseScale_pos[OF assms] by (simp add: MARQUEE_GAP_VW_def)
  then have "100 + Max (set (scaledWidths lay)) \<le> totalWidth lay"
    using marqueeLayout_total(1,2)[OF l] by linarith
  then show ?thesis using l marqueeLayout_total(3)[OF l] by simp
qed

theorem marqueeLayout_covers_viewport_witness:
  "two_images \<noteq> [] \<and> 0 \<le> img_width (two_images ! 0) \<and> 0 \<le> img_width (two_images ! 1)
   \<and> (\<exists>lay. marqueeLayout two_images = Some lay
          \<and> 100 + Max (set (scaledWidths lay)) \<le> totalWidth lay
          \<and> length (scaledWidths lay) = length two_images)"
proof -
  have h: "two_images \<noteq> []" "\<forall>img \<in> set two_images. 0 \<le> img_width img"
    by (simp_all add: two_images_def)
  show ?thesis
    using marqueeLayout_covers_viewport[OF h] h by (simp add: two_images_def)
qed


section \<open>Scroll position tracker: clamping\<close>

lemma clamp_in_range:
  assumes "lo \<le> hi"
  shows "lo \<le> clamp v lo hi" and "clamp v lo hi \<le> hi"
    and "lo \<le> v \<Longrightarrow> v \<le> hi \<Longrightarrow> clamp v lo hi = v"
    and "v < lo \<Longrightarrow> clamp v lo hi = lo" and "hi < v \<Longrightarrow> clamp v lo hi = hi"
  using assms by (simp_all add: clamp_def)

lemma clamp_empty_range:
  assumes "hi < lo"
  shows "clamp v lo hi = lo"
  using assms by (simp add: clamp_def)

text \<open>
  Claim C3.  On a mounted container of content height \<open>H\<close> in a viewport of height \<open>V\<close>,
  \<^verbatim>\<open>scrollTo(position, true)\<close> leaves \<^verbatim>\<open>getScrollPosition()\<close> at \<open>position\<close> clamped to
  \<open>[0, H - V]\<close>, with \<open>current\<close> equal to \<open>target\<close>.  Where the content is at least as high
  as the viewport the result lies in \<open>[0, H - V]\<close> and the order of the two bounds in the
  clamp does not matter; where it is lower, the result is 0.
\<close>

theorem scrollTo_instant_clamps:
  "getScrollPosition (scrollTo (Some H) V position True s) = clamp position 0 (H - V)
   \<and> current (scrollTo (Some H) V position True s) = target (scrollTo (Some H) V position True s)
   \<and> (V \<le> H \<longrightarrow> 0 \<le> getScrollPosition (scrollTo (Some H) V position True s)
                \<and> getScrollPosition (scrollTo (Some H) V position True s) \<le> H - V
                \<and> getScrollPosition (scrollTo (Some H) V position True s)
                    = min (max position 0) (H - V))
   \<and> (H < V \<longrightarrow> getScrollPosition (scrollTo (Some H) V position True s) = 0)"
  by (auto simp add: scrollTo_def getScrollPosition_def clamp_def Let_def)

theorem scrollTo_instant_clamps_witness:
  "(900::real) \<le> 3000
   \<and> getScrollPosition (scrollTo (Some 3000) 900 5000 True idle_scroll) = 2100
   \<and> getScrollPosition (scrollTo (Some 3000) 900 (- 40) True idle_scroll) = 0
   \<and> getScrollPosition (scrollTo (Some 3000) 900 850 True idle_scroll) = 850
   \<and> (500::real) < 900
   \<and> getScrollPosition (scrollTo (Some 500) 900 850 True idle_scroll) = 0"
  using scrollTo_instant_clamps[of 3000 900 5000 idle_scroll]
    scrollTo_instant_clamps[of 3000 900 "- 40" idle_scroll]
    scrollTo_instant_clamps[of 3000 900 850 idle_scroll]
    scrollTo_instant_clamps[of 500 900 850 idle_scroll]
  by simp

lemma scrollTo_unmounted: "scrollTo None V position instant s = s"
  by (simp add: scrollTo_def)

text \<open>
  Centring an element of height 200 whose top is at 1200 in a viewport of height 900
  targets 850.
\<close>

lemma scrollToElement_scenario:
  "target (scrollToElement (Some 3000) 900 0 (Some (1200, 200)) 0 Center False idle_scroll) = 850"
  by (simp add: scrollToElement_def scrollTo_def idle_scroll_def Let_def)

subsection \<open>Notification\<close>

lemma notify_all_returned:
  assumes "\<forall>l \<in> set ls. l v = Returned"
  shows "notify ls i v s = Normal (s \<lparr> calls := calls s @ map (\<lambda>j. (j, v)) [i..<i + length ls] \<rparr>)"
  using assms
proof (induction ls arbitrary: i s)
  case Nil
  then show ?case by simp
next
  case (Cons l ls)
  have "[i..<i + length (l # ls)] = i # [Suc i..<Suc i + length ls]"
    by (simp add: upt_conv_Cons del: upt_Suc)
  then show ?case using Cons by (simp del: upt_Suc)
qed

lemma notify_threw:
  assumes "k < length ls" and "(ls ! k) v = Threw" and "\<forall>j<k. (ls ! j) v = Returned"
  shows "notify ls i v s = Abrupt (s \<lparr> calls := calls s @ map (\<lambda>j. (j, v)) [i..<i + Suc k] \<rparr>)"
  using assms
proof (induction ls arbitrary: i k s)
  case Nil
  then show ?case by simp
next
  case (Cons l ls)
  show ?case
  proof (cases k)
    case 0
    then show ?thesis using Cons.prems by (simp add: upt_conv_Cons del: upt_Suc)
  next
    case (Suc k')
    have l: "l v = Returned" using Cons.prems(3) Suc by auto
    have "k' < length ls" "(ls ! k') v = Threw" "\<forall>j<k'. (ls ! j) v = Returned"
      using Cons.prems Suc by auto
    from Cons.IH[OF this]
    have "notify ls (Suc i) v (s \<lparr> calls := calls s @ [(i, v)] \<rparr>)
            = Abrupt (s \<lparr> calls := (calls s @ [(i, v)]) @ map (\<lambda>j. (j, v)) [Suc i..<Suc i + Suc k'] \<rparr>)"
      by (simp del: upt_Suc)
    moreover have "[i..<i + Suc k] = i # [Suc i..<Suc i + Suc k']"
      using Suc by (simp add: upt_conv_Cons del: upt_Suc)
    ultimately show ?thesis using l by (simp del: upt_Suc)
  qed
qed

section \<open>Scroll position tracker: one frame\<close>

text \<open>The state written by \<^verbatim>\<open>updateScroll\<close> before it notifies the listeners.\<close>

lemma updateScroll_returned:
  assumes "\<forall>l \<in> set ls. \<forall>v. l v = Returned"
  shows "updateScroll (Some H) ls s =
     (let c = lerp (current s) (target s) (ease s); r = round2 c;
          log = calls s @ map (\<lambda>j. (j, r)) [0..<length ls]
      in if \<bar>target s - c\<bar> > 1 / 2
         then Normal (s \<lparr> current := c, rafPending := True, transform := - r, scrollY := r,
                          calls := log \<rparr>)
         else Normal (s \<lparr> current := target s, isScrolling := False, transform := - target s,
                          scrollY := target s,
                          calls := log @ map (\<lambda>j. (j, target s)) [0..<length ls] \<rparr>))"
proof -
  have n: "notify ls 0 v t = Normal (t \<lparr> calls := calls t @ map (\<lambda>j. (j, v)) [0..<length ls] \<rparr>)"
    for v t
    using notify_all_returned[of ls v 0 t] assms by simp
  show ?thesis
    by (simp add: updateScroll_def n Let_def)
qed

lemma updateScroll_threw:
  assumes "k < length ls" and "(ls ! k) (round2 (lerp (current s) (target s) (ease s))) = Threw"
    and "\<forall>j<k. (ls ! j) (round2 (lerp (current s) (target s) (ease s))) = Returned"
  shows "updateScroll (Some H) ls s =
     (let c = lerp (current s) (target s) (ease s); r = round2 c
      in Abrupt (s \<lparr> current := c, transform := - r, scrollY := r,
                      calls := calls s @ map (\<lambda>j. (j, r)) [0..<Suc k] \<rparr>))"
proof -
  define c where "c = lerp (current s) (target s) (ease s)"
  define t where "t = s \<lparr> current := c, transform := - round2 c, scrollY := round2 c \<rparr>"
  have "notify ls 0 (round2 c) t
          = Abrupt (t \<lparr> calls := calls t @ map (\<lambda>j. (j, round2 c)) [0..<0 + Suc k] \<rparr>)"
    using assms unfolding c_def[symmetric] by (intro notify_threw) simp_all
  then show ?thesis
    by (simp add: updateScroll_def Let_def c_def[symmetric] t_def del: upt_Suc)
qed

lemma updateScroll_round1:
  assumes "\<forall>l \<in> set ls. l (round2 (lerp (current s) (target s) (ease s))) = Returned"
    and "1 / 2 < \<bar>target s - lerp (current s) (target s) (ease s)\<bar>"
  shows "updateScroll (Some H) ls s =
     Normal (s \<lparr> current := lerp (current s) (target s) (ease s), rafPending := True,
                 transform := - round2 (lerp (current s) (target s) (ease s)),
                 scrollY := round2 (lerp (current s) (target s) (ease s)),
                 calls := calls s @ map (\<lambda>j. (j, round2 (lerp (current s) (target s) (ease s))))
                                        [0..<length ls] \<rparr>)"
proof -
  define c where "c = lerp (current s) (target s) (ease s)"
  have n: "notify ls 0 (round2 c) t
             = Normal (t \<lparr> calls := calls t @ map (\<lambda>j. (j, round2 c)) [0..<length ls] \<rparr>)" for t
    using notify_all_returned[of ls "round2 c" 0 t] assms(1) by (simp add: c_def)
  show ?thesis
    using assms(2) unfolding c_def[symmetric]
    by (simp add: updateScroll_def n Let_def c_def[symmetric])
qed

lemma updateScroll_snap:
  assumes "\<forall>l \<in> set ls. l (round2 (lerp (current s) (target s) (ease s))) = Returned"
    and "\<forall>l \<in> set ls. l (target s) = Returned"
    and "\<not> 1 / 2 < \<bar>target s - lerp (current s) (target s) (ease s)\<bar>"
  shows "updateScroll (Some H) ls s =
     Normal (s \<lparr> current := target s, isScrolling := False, transform := - target s,
                 scrollY := target s,
                 calls := calls s @ map (\<lambda>j. (j, round2 (lerp (current s) (target s) (ease s))))
                                        [0..<length ls]
                                  @ map (\<lambda>j. (j, target s)) [0..<length ls] \<rparr>)"
proof -
  define c where "c = lerp (current s) (target s) (ease s)"
  have n: "notify ls 0 (round2 c) t
             = Normal (t \<lparr> calls := calls t @ map (\<lambda>j. (j, round2 c)) [0..<length ls] \<rparr>)" for t
    using notify_all_returned[of ls "round2 c" 0 t] assms(1) by (simp add: c_def)
  have n': "notify ls 0 (target s) t
             = Normal (t \<lparr> calls := calls t @ map (\<lambda>j. (j, target s)) [0..<length ls] \<rparr>)" for t
    using notify_all_returned[of ls "target s" 0 t] assms(2) by simp
  show ?thesis
    using assms(3) unfolding c_def[symmetric]
    by (simp add: updateScroll_def n n' Let_def c_def[symmetric])
qed

lemma updateScroll_snap_threw:
  assumes "\<forall>l \<in> set ls. l (round2 (lerp (current s) (target s) (ease s))) = Returned"
    and "\<not> 1 / 2 < \<bar>target s - lerp (current s) (target s) (ease s)\<bar>"
    and "k < length ls" and "(ls ! k) (target s) = Threw"
    and "\<forall>j<k. (ls ! j) (target s) = Returned"
  shows "updateScroll (Some H) ls s =
     Abrupt (s \<lparr> current := target s, transform := - target s, scrollY := target s,
                 calls := calls s @ map (\<lambda>j. (j, round2 (lerp (current s) (target s) (ease s))))
                                        [0..<length ls]
                                  @ map (\<lambda>j. (j, target s)) [0..<Suc k] \<rparr>)"
proof -
  define c where "c = lerp (current s) (target s) (ease s)"
  have n: "notify ls 0 (round2 c) t
             = Normal (t \<lparr> calls := calls t @ map (\<lambda>j. (j, round2 c)) [0..<length ls] \<rparr>)" for t
    using notify_all_returned[of ls "round2 c" 0 t] assms(1) by (simp add: c_def)
  have n': "notify ls 0 (target s) t
             = Abrupt (t \<lparr> calls := calls t @ map (\<lambda>j. (j, target s)) [0..<0 + Suc k] \<rparr>)" for t
    using assms(3-5) by (intro notify_threw) simp_all
  show ?thesis
    using assms(2) unfolding c_def[symmetric]
    by (simp add: updateScroll_def n n' Let_def c_def[symmetric] del: upt_Suc)
qed

text \<open>
  Claim C5, as the code has it.  Within a frame the listeners are notified in registration
  order: once with the rounded position and, in the frame that reaches the target, a
  second time with the target.  If no listener throws, every listener receives every
  notification of the frame; the loop is queued again while more than half a pixel
  remains, and is marked idle once the target is reached.  A listener that throws is not
  isolated: its exception ends the frame callback at once.  The listeners registered
  after it miss that notification and the later one of the frame, no further frame is
  queued, and the loop is not marked idle either.
\<close>

theorem updateScroll_notification:
  fixes s :: scroll and ls :: "listener list"
  defines "c \<equiv> lerp (current s) (target s) (ease s)"
    and "r \<equiv> round2 (lerp (current s) (target s) (ease s))"
  shows
    "((\<forall>l \<in> set ls. l r = Returned) \<and> 1 / 2 < \<bar>target s - c\<bar> \<longrightarrow>
        updateScroll (Some H) ls s =
          Normal (s \<lparr> current := c, rafPending := True, transform := - r, scrollY := r,
                      calls := calls s @ map (\<lambda>j. (j, r)) [0..<length ls] \<rparr>))
     \<and> ((\<forall>l \<in> set ls. l r = Returned) \<and> (\<forall>l \<in> set ls. l (target s) = Returned)
          \<and> \<not> 1 / 2 < \<bar>target s - c\<bar> \<longrightarrow>
        updateScroll (Some H) ls s =
          Normal (s \<lparr> current := target s, isScrolling := False, transform := - target s,
                      scrollY := target s,
                      calls := calls s @ map (\<lambda>j. (j, r)) [0..<length ls]
                                       @ map (\<lambda>j. (j, target s)) [0..<length ls] \<rparr>))
     \<and> (k < length ls \<and> (ls ! k) r = Threw \<and> (\<forall>j<k. (ls ! j) r = Returned) \<longrightarrow>
        updateScroll (Some H) ls s =
          Abrupt (s \<lparr> current := c, transform := - r, scrollY := r,
                      calls := calls s @ map (\<lambda>j. (j, r)) [0..<Suc k] \<rparr>))
     \<and> ((\<forall>l \<in> set ls. l r = Returned) \<and> \<not> 1 / 2 < \<bar>target s - c\<bar>
          \<and> k < length ls \<and> (ls ! k) (target s) = Threw
          \<and> (\<forall>j<k. (ls ! j) (target s) = Returned) \<longrightarrow>
        updateScroll (Some H) ls s =
          Abrupt (s \<lparr> current := target s, transform := - target s, scrollY := target s,
                      calls := calls s @ map (\<lambda>j. (j, r)) [0..<length ls]
                                       @ map (\<lambda>j. (j, target s)) [0..<Suc k] \<rparr>))"
proof (intro conjI impI)
  assume "(\<forall>l \<in> set ls. l r = Returned) \<and> 1 / 2 < \<bar>target s - c\<bar>"
  then show "updateScroll (Some H) ls s =
          Normal (s \<lparr> current := c, rafPending := True, transform := - r, scrollY := r,
                      calls := calls s @ map (\<lambda>j. (j, r)) [0..<length ls] \<rparr>)"
    unfolding c_def r_def by (intro updateScroll_round1) simp_all
next
  assume "(\<forall>l \<in> set ls. l r = Returned) \<and> (\<forall>l \<in> set ls. l (target s) = Returned)
          \<and> \<not> 1 / 2 < \<bar>target s - c\<bar>"
  then show "updateScroll (Some H) ls s =
          Normal (s \<lparr> current := target s, isScrolling := False, transform := - target s,
                      scrollY := target s,
                      calls := calls s @ map (\<lambda>j. (j, r)) [0..<length ls]
                                       @ map (\<lambda>j. (j, target s)) [0..<length ls] \<rparr>)"
    unfolding c_def r_def by (intro updateScroll_snap) simp_all
next
  assume "k < length ls \<and> (ls ! k) r = Threw \<and> (\<forall>j<k. (ls ! j) r = Returned)"
  then have "updateScroll (Some H) ls s =
     (let c = lerp (current s) (target s) (ease s); r = round2 c
      in Abrupt (s \<lparr> current := c, transform := - r, scrollY := r,
                      calls := calls s @ map (\<lambda>j. (j, r)) [0..<Suc k] \<rparr>))"
    unfolding r_def by (intro updateScroll_threw) simp_all
  then show "updateScroll (Some H) ls s =
          Abrupt (s \<lparr> current := c, transform := - r, scrollY := r,
                      calls := calls s @ map (\<lambda>j. (j, r)) [0..<Suc k] \<rparr>)"
    unfolding c_def r_def by (simp add: Let_def del: upt_Suc)
next
  assume "(\<forall>l \<in> set ls. l r = Returned) \<and> \<not> 1 / 2 < \<bar>target s - c\<bar>
          \<and> k < length ls \<and> (ls ! k) (target s) = Threw
          \<and> (\<forall>j<k. (ls ! j) (target s) = Returned)"
  then show "updateScroll (Some H) ls s =
          Abrupt (s \<lparr> current := target s, transform := - target s, scrollY := target s,
                      calls := calls s @ map (\<lambda>j. (j, r)) [0..<length ls]
                                       @ map (\<lambda>j. (j, target s)) [0..<Suc k] \<rparr>)"
    unfolding c_def r_def by (intro updateScroll_snap_threw) simp_all
qed

text \<open>
  The rounding to two decimals follows the doubles: \<^verbatim>\<open>2.675\<close> is a double below
  2.675, yet its product with 100 rounds to \<^verbatim>\<open>267.5\<close> and the result is \<^verbatim>\<open>2.68\<close>.
\<close>

lemma round2_half_up: "round2 (fl (2675 / 1000)) = fl (268 / 100)"
proof -
  have x: "fl (2675 / 1000) = 6023564501608038 / 2 ^ 51"
    by (rule fl_round[where y = "2675 / 1000" and n = 51 and m = 6023564501608038])
       (simp_all add: rhe_def)
  have p: "fl (6023564501608038 / 2 ^ 51 * 100) = 535 / 2"
    by (rule fl_round[where y = "6023564501608038 / 2 ^ 51 * 100" and n = 44
          and m = 4705909766881280]) (simp_all add: rhe_def)
  show ?thesis unfolding round2_def x p by simp
qed

lemma round2_50: "round2 50 = 50"
proof -
  have "fl 5000 = 5000" using fl_of_int[of 5000] by simp
  moreover have "fl 50 = 50" using fl_of_int[of 50] by simp
  ultimately show ?thesis by (simp add: round2_def)
qed

lemma round2_quarter: "round2 (1 / 4) = 1 / 4"
proof -
  have "fl 25 = 25" using fl_of_int[of 25] by simp
  moreover have "fl (1 / 4) = 1 / 4" using fl_dyadic[of 1 2] by simp
  ultimately show ?thesis by (simp add: round2_def)
qed

lemma lerp_0_100: "lerp 0 100 (1 / 2) = 50"
  by (simp add: lerp_def)

lemma lerp_0_half: "lerp 0 (1 / 2) (1 / 2) = 1 / 4"
  by (simp add: lerp_def)

theorem updateScroll_notification_witness:
  "(\<forall>v. quiet v = Returned) \<and> throwing 50 = Threw
   \<and> throwing_on (1 / 2) (1 / 4) = Returned \<and> throwing_on (1 / 2) (1 / 2) = Threw
   \<and> updateScroll (Some 3000) [quiet, quiet] (idle_scroll \<lparr> target := 100 \<rparr>)
       = Normal (idle_scroll \<lparr> current := 50, target := 100, rafPending := True, transform := - 50,
                              scrollY := 50, calls := [(0, 50), (1, 50)] \<rparr>)
   \<and> updateScroll (Some 3000) [quiet, quiet] (idle_scroll \<lparr> target := 1 / 2 \<rparr>)
       = Normal (idle_scroll \<lparr> current := 1 / 2, target := 1 / 2, transform := - (1 / 2),
                              scrollY := 1 / 2,
                              calls := [(0, 1 / 4), (1, 1 / 4), (0, 1 / 2), (1, 1 / 2)] \<rparr>)
   \<and> updateScroll (Some 3000) [throwing, quiet] (idle_scroll \<lparr> target := 100 \<rparr>)
       = Abrupt (idle_scroll \<lparr> current := 50, target := 100, transform := - 50, scrollY := 50,
                              calls := [(0, 50)] \<rparr>)
   \<and> updateScroll (Some 3000) [throwing_on (1 / 2), quiet] (idle_scroll \<lparr> target := 1 / 2 \<rparr>)
       = Abrupt (idle_scroll \<lparr> current := 1 / 2, target := 1 / 2, transform := - (1 / 2),
                              scrollY := 1 / 2,
                              calls := [(0, 1 / 4), (1, 1 / 4), (0, 1 / 2)] \<rparr>)"
proof -
  let ?a = "idle_scroll \<lparr> target := 100 \<rparr>"
  let ?b = "idle_scroll \<lparr> target := 1 / 2 \<rparr>"
  have fa: "current ?a = 0" "target ?a = 100" "ease ?a = 1 / 2" "calls ?a = []"
    and fb: "current ?b = 0" "target ?b = 1 / 2" "ease ?b = 1 / 2" "calls ?b = []"
    by (simp_all add: idle_scroll_def)
  have l: "(\<forall>v. quiet v = Returned)" "throwing 50 = Threw"
    "throwing_on (1 / 2) (1 / 4) = Returned" "throwing_on (1 / 2) (1 / 2) = Threw"
    by (simp_all add: quiet_def throwing_def throwing_on_def)
  have 1: "updateScroll (Some 3000) [quiet, quiet] ?a
       = Normal (idle_scroll \<lparr> current := 50, target := 100, rafPending := True, transform := - 50,
                              scrollY := 50, calls := [(0, 50), (1, 50)] \<rparr>)"
    using updateScroll_notification[where ls = "[quiet, quiet]" and s = ?a and k = 0 and H = 3000] l
    by (simp add: fa lerp_0_100 round2_50 upt_conv_Cons idle_scroll_def del: upt_Suc)
  have 2: "updateScroll (Some 3000) [quiet, quiet] ?b
       = Normal (idle_scroll \<lparr> current := 1 / 2, target := 1 / 2, transform := - (1 / 2),
                              scrollY := 1 / 2,
                              calls := [(0, 1 / 4), (1, 1 / 4), (0, 1 / 2), (1, 1 / 2)] \<rparr>)"
    using updateScroll_notification[where ls = "[quiet, quiet]" and s = ?b and k = 0 and H = 3000] l
    by (simp add: fb lerp_0_half round2_quarter upt_conv_Cons idle_scroll_def del: upt_Suc)
  have 3: "updateScroll (Some 3000) [throwing, quiet] ?a
       = Abrupt (idle_scroll \<lparr> current := 50, target := 100, transform := - 50, scrollY := 50,
                              calls := [(0, 50)] \<rparr>)"
    using updateScroll_notification[where ls = "[throwing, quiet]" and s = ?a and k = 0 and H = 3000] l
    by (simp add: fa lerp_0_100 round2_50 upt_conv_Cons idle_scroll_def del: upt_Suc)
  have 4: "updateScroll (Some 3000) [throwing_on (1 / 2), quiet] ?b
       = Abrupt (idle_scroll \<lparr> current := 1 / 2, target := 1 / 2, transform := - (1 / 2),
                              scrollY := 1 / 2,
                              calls := [(0, 1 / 4), (1, 1 / 4), (0, 1 / 2)] \<rparr>)"
    using updateScroll_notification[where ls = "[throwing_on (1 / 2), quiet]" and s = ?b and k = 0
        and H = 3000] l
    by (simp add: fb lerp_0_half round2_quarter upt_conv_Cons idle_scroll_def del: upt_Suc)
  show ?thesis using l 1 2 3 4 by simp
qed

text \<open>
  Claim C5 as stated does not hold.  With a throwing listener registered first, a frame 100 pixels away from its target calls
  that listener only and queues no further frame: the second listener is never notified
  and the loop has stopped short of its target.
\<close>

theorem updateScroll_listener_not_isolated:
  "calls (state_of (updateScroll (Some 3000) [throwing, quiet] (idle_scroll \<lparr> target := 100 \<rparr>)))
     = [(0, 50)]
   \<and> \<not> rafPending (state_of (updateScroll (Some 3000) [throwing, quiet] (idle_scroll \<lparr> target := 100 \<rparr>)))
   \<and> 1 / 2 < \<bar>target (state_of (updateScroll (Some 3000) [throwing, quiet] (idle_scroll \<lparr> target := 100 \<rparr>)))
              - current (state_of (updateScroll (Some 3000) [throwing, quiet] (idle_scroll \<lparr> target := 100 \<rparr>)))\<bar>"
  by (simp add: updateScroll_def idle_scroll_def throwing_def quiet_def lerp_0_100 round2_50 Let_def)

section \<open>Scroll position tracker: convergence\<close>

lemma lerp_abs_error:
  assumes "0 < e" "e < 1"
  shows "\<bar>t - lerp c t e\<bar> = (1 - e) * \<bar>t - c\<bar>"
proof -
  have "t - lerp c t e = (1 - e) * (t - c)" by (simp add: lerp_def algebra_simps)
  then show ?thesis using assms by (simp add: abs_mult)
qed

text \<open>One frame of a queued loop whose listeners all return.\<close>

lemma frame_pending:
  assumes "\<forall>l \<in> set ls. \<forall>v. l v = Returned" and "rafPending s"
  shows "target (frame (Some H) ls s) = target s"
    and "ease (frame (Some H) ls s) = ease s"
    and "1 / 2 < \<bar>target s - lerp (current s) (target s) (ease s)\<bar> \<Longrightarrow>
           current (frame (Some H) ls s) = lerp (current s) (target s) (ease s)
           \<and> rafPending (frame (Some H) ls s)"
    and "\<not> 1 / 2 < \<bar>target s - lerp (current s) (target s) (ease s)\<bar> \<Longrightarrow>
           current (frame (Some H) ls s) = target s
           \<and> \<not> rafPending (frame (Some H) ls s) \<and> \<not> isScrolling (frame (Some H) ls s)"
  using assms by (simp_all add: frame_def updateScroll_returned Let_def)

lemma frame_idle:
  assumes "\<not> rafPending s"
  shows "frame content ls s = s"
  using assms by (simp add: frame_def)

lemma frames_Suc_right:
  "frames (Suc k) content ls s = frame content ls (frames k content ls s)"
  by (induction k arbitrary: s) simp_all

text \<open>
  The loop invariant: a frame is queued or the position has reached its target, and the
  easing factor is a proper fraction.
\<close>

lemma frame_invariant:
  assumes "\<forall>l \<in> set ls. \<forall>v. l v = Returned"
    and "rafPending s \<or> current s = target s"
  shows "rafPending (frame (Some H) ls s) \<or> current (frame (Some H) ls s) = target (frame (Some H) ls s)"
    and "target (frame (Some H) ls s) = target s" and "ease (frame (Some H) ls s) = ease s"
proof -
  show "target (frame (Some H) ls s) = target s" "ease (frame (Some H) ls s) = ease s"
    using frame_pending(1,2)[OF assms(1)] frame_idle by (cases "rafPending s"; simp)+
  show "rafPending (frame (Some H) ls s) \<or> current (frame (Some H) ls s) = target (frame (Some H) ls s)"
  proof (cases "rafPending s")
    case True
    then show ?thesis
      using frame_pending[OF assms(1) True, of H]
      by (cases "1 / 2 < \<bar>target s - lerp (current s) (target s) (ease s)\<bar>") simp_all
  next
    case False
    then show ?thesis using assms(2) by (simp add: frame_idle)
  qed
qed

lemma frames_invariant:
  assumes "\<forall>l \<in> set ls. \<forall>v. l v = Returned"
    and "rafPending s \<or> current s = target s"
  shows "(rafPending (frames k (Some H) ls s) \<or> current (frames k (Some H) ls s) = target (frames k (Some H) ls s))
       \<and> target (frames k (Some H) ls s) = target s \<and> ease (frames k (Some H) ls s) = ease s"
proof (induction k)
  case 0
  then show ?case using assms(2) by simp
next
  case (Suc k)
  let ?t = "frames k (Some H) ls s"
  have inv: "rafPending ?t \<or> current ?t = target ?t" using Suc by blast
  have "target ?t = target s" "ease ?t = ease s" using Suc by blast+
  then show ?case
    unfolding frames_Suc_right using frame_invariant[OF assms(1) inv, of H] by metis
qed

lemma frame_error_decreases:
  assumes "\<forall>l \<in> set ls. \<forall>v. l v = Returned"
    and "rafPending s \<or> current s = target s" and "0 < ease s" and "ease s < 1"
  shows "\<bar>target (frame (Some H) ls s) - current (frame (Some H) ls s)\<bar> \<le> \<bar>target s - current s\<bar>"
    and "1 / 2 < \<bar>target s - current s\<bar> \<Longrightarrow>
         \<bar>target (frame (Some H) ls s) - current (frame (Some H) ls s)\<bar> < \<bar>target s - current s\<bar>"
proof -
  let ?E = "\<bar>target s - current s\<bar>"
  let ?E' = "\<bar>target (frame (Some H) ls s) - current (frame (Some H) ls s)\<bar>"
  have shrink: "(1 - ease s) * ?E \<le> ?E" "0 < ?E \<Longrightarrow> (1 - ease s) * ?E < ?E"
    using assms(3,4) by (simp_all add: mult_le_cancel_right2 mult_less_cancel_right2)
  have E': "?E' = (1 - ease s) * ?E \<or> ?E' = 0" if "rafPending s"
    using frame_pending[OF assms(1) that, of H] lerp_abs_error[OF assms(3,4), of "target s" "current s"]
    by (cases "1 / 2 < \<bar>target s - lerp (current s) (target s) (ease s)\<bar>") simp_all
  show "?E' \<le> ?E"
  proof (cases "rafPending s")
    case True
    then show ?thesis using E' shrink(1) by fastforce
  next
    case False
    then show ?thesis by (simp add: frame_idle)
  qed
  show "?E' < ?E" if "1 / 2 < ?E"
  proof -
    have "rafPending s" using that assms(2) by auto
    moreover have "0 < ?E" using that by linarith
    ultimately show ?thesis using E' shrink(2) by fastforce
  qed
qed

lemma frames_reach_target:
  assumes "\<forall>l \<in> set ls. \<forall>v. l v = Returned" and "0 < ease s" and "ease s < 1"
    and "rafPending s" and "(1 - ease s) ^ Suc n * \<bar>target s - current s\<bar> \<le> 1 / 2"
  shows "\<exists>m. current (frames m (Some H) ls s) = target s
           \<and> \<not> rafPending (frames m (Some H) ls s) \<and> \<not> isScrolling (frames m (Some H) ls s)"
  using assms(2-)
proof (induction n arbitrary: s)
  case 0
  then have "\<not> 1 / 2 < \<bar>target s - lerp (current s) (target s) (ease s)\<bar>"
    by (simp add: lerp_abs_error)
  from frame_pending(4)[OF assms(1) \<open>rafPending s\<close> this, of H]
  have "current (frames 1 (Some H) ls s) = target s
           \<and> \<not> rafPending (frames 1 (Some H) ls s) \<and> \<not> isScrolling (frames 1 (Some H) ls s)"
    by simp
  then show ?case by blast
next
  case (Suc n)
  show ?case
  proof (cases "1 / 2 < \<bar>target s - lerp (current s) (target s) (ease s)\<bar>")
    case False
    from frame_pending(4)[OF assms(1) \<open>rafPending s\<close> this, of H]
    have "current (frames 1 (Some H) ls s) = target s
           \<and> \<not> rafPending (frames 1 (Some H) ls s) \<and> \<not> isScrolling (frames 1 (Some H) ls s)"
      by simp
    then show ?thesis by blast
  next
    case True
    let ?s1 = "frame (Some H) ls s"
    have s1: "current ?s1 = lerp (current s) (target s) (ease s)" "rafPending ?s1"
      "target ?s1 = target s" "ease ?s1 = ease s"
      using frame_pending[OF assms(1) \<open>rafPending s\<close>, of H] True by simp_all
    have "(1 - ease ?s1) ^ Suc n * \<bar>target ?s1 - current ?s1\<bar>
            = (1 - ease s) ^ Suc (Suc n) * \<bar>target s - current s\<bar>"
      using Suc.prems(1,2) by (simp add: s1 lerp_abs_error)
    then have "(1 - ease ?s1) ^ Suc n * \<bar>target ?s1 - current ?s1\<bar> \<le> 1 / 2"
      using Suc.prems(4) by simp
    from Suc.IH[OF _ _ s1(2) this]
    obtain m where "current (frames m (Some H) ls ?s1) = target ?s1
           \<and> \<not> rafPending (frames m (Some H) ls ?s1) \<and> \<not> isScrolling (frames m (Some H) ls ?s1)"
      using Suc.prems(1,2) s1(4) by auto
    then have "current (frames (Suc m) (Some H) ls s) = target s
           \<and> \<not> rafPending (frames (Suc m) (Some H) ls s) \<and> \<not> isScrolling (frames (Suc m) (Some H) ls s)"
      by (simp add: s1(3))
    then show ?thesis by blast
  qed
qed

lemma power_shrinks:
  fixes q E :: real
  assumes "0 \<le> q" "q < 1" "0 \<le> E"
  shows "\<exists>n. q ^ Suc n * E \<le> 1 / 2"
proof (cases "E = 0")
  case True
  then show ?thesis by simp
next
  case False
  then have E: "0 < E" using assms(3) by simp
  then have "0 < 1 / (2 * E)" by simp
  from real_arch_pow_inv[OF this assms(2)] obtain n where n: "q ^ n < 1 / (2 * E)" by blast
  have "q ^ Suc n \<le> q ^ n" using assms(1,2) by (simp add: mult_left_le_one_le)
  then have "q ^ Suc n < 1 / (2 * E)" using n by linarith
  then have "q ^ Suc n * E < 1 / (2 * E) * E"
    using E by (intro mult_strict_right_mono)
  then have "q ^ Suc n * E \<le> 1 / 2" using E by simp
  then show ?thesis by blast
qed

lemma scrollTo_smooth:
  assumes "isScrolling s0 = rafPending s0"
  shows "target (scrollTo (Some H) V pos False s0) = clamp pos 0 (H - V)"
    and "current (scrollTo (Some H) V pos False s0) = current s0"
    and "ease (scrollTo (Some H) V pos False s0) = ease s0"
    and "rafPending (scrollTo (Some H) V pos False s0)"
    and "isScrolling (scrollTo (Some H) V pos False s0)"
  using assms by (simp_all add: scrollTo_def clamp_def Let_def)

text \<open>
  Claim C4.  After \<^verbatim>\<open>scrollTo(pos, false)\<close> with an easing factor strictly between 0 and
  1 and listeners that return, the error \<open>\<bar>target - current\<bar>\<close> never grows from one frame
  to the next and strictly decreases while it exceeds half a pixel; and after finitely many
  frames the position has been snapped to the clamped target and the loop has stopped.
\<close>

theorem scroll_converges:
  assumes "0 < ease s0" and "ease s0 < 1"
    and "\<forall>l \<in> set ls. \<forall>v. l v = Returned"
    and "isScrolling s0 = rafPending s0"
  shows "(\<forall>k. \<bar>target (frames (Suc k) (Some H) ls (scrollTo (Some H) V pos False s0))
               - current (frames (Suc k) (Some H) ls (scrollTo (Some H) V pos False s0))\<bar>
             \<le> \<bar>target (frames k (Some H) ls (scrollTo (Some H) V pos False s0))
               - current (frames k (Some H) ls (scrollTo (Some H) V pos False s0))\<bar>
            \<and> (1 / 2 < \<bar>target (frames k (Some H) ls (scrollTo (Some H) V pos False s0))
                        - current (frames k (Some H) ls (scrollTo (Some H) V pos False s0))\<bar>
                 \<longrightarrow> \<bar>target (frames (Suc k) (Some H) ls (scrollTo (Some H) V pos False s0))
                        - current (frames (Suc k) (Some H) ls (scrollTo (Some H) V pos False s0))\<bar>
                      < \<bar>target (frames k (Some H) ls (scrollTo (Some H) V pos False s0))
                        - current (frames k (Some H) ls (scrollTo (Some H) V pos False s0))\<bar>))
       \<and> (\<exists>n. current (frames n (Some H) ls (scrollTo (Some H) V pos False s0)) = clamp pos 0 (H - V)
              \<and> target (frames n (Some H) ls (scrollTo (Some H) V pos False s0)) = clamp pos 0 (H - V)
              \<and> \<not> isScrolling (frames n (Some H) ls (scrollTo (Some H) V pos False s0))
              \<and> \<not> rafPending (frames n (Some H) ls (scrollTo (Some H) V pos False s0)))"
proof -
  let ?s = "scrollTo (Some H) V pos False s0"
  let ?F = "\<lambda>k. frames k (Some H) ls ?s"
  note st = scrollTo_smooth[OF assms(4), of H V pos]
  have inv0: "rafPending ?s \<or> current ?s = target ?s" using st(4) by simp
  have inv: "(rafPending (?F k) \<or> current (?F k) = target (?F k))
             \<and> target (?F k) = clamp pos 0 (H - V) \<and> ease (?F k) = ease s0" for k
    using frames_invariant[OF assms(3) inv0, of k H] st(1,3) by metis
  have mono: "\<bar>target (?F (Suc k)) - current (?F (Suc k))\<bar> \<le> \<bar>target (?F k) - current (?F k)\<bar>
        \<and> (1 / 2 < \<bar>target (?F k) - current (?F k)\<bar>
             \<longrightarrow> \<bar>target (?F (Suc k)) - current (?F (Suc k))\<bar> < \<bar>target (?F k) - current (?F k)\<bar>)" for k
  proof -
    have i: "rafPending (?F k) \<or> current (?F k) = target (?F k)" using inv[of k] by blast
    have e: "0 < ease (?F k)" "ease (?F k) < 1" using inv[of k] assms(1,2) by simp_all
    show ?thesis
      unfolding frames_Suc_right
      using frame_error_decreases[OF assms(3) i e, of H] by blast
  qed
  have e0: "0 < ease ?s" "ease ?s < 1" using st(3) assms(1,2) by simp_all
  then have "0 \<le> 1 - ease ?s" "1 - ease ?s < 1" by simp_all
  from power_shrinks[OF this, of "\<bar>target ?s - current ?s\<bar>"]
  obtain n where "(1 - ease ?s) ^ Suc n * \<bar>target ?s - current ?s\<bar> \<le> 1 / 2" by auto
  from frames_reach_target[OF assms(3) e0 st(4) this, of H]
  obtain m where m: "current (?F m) = target ?s" "\<not> rafPending (?F m)" "\<not> isScrolling (?F m)"
    by blast
  have "current (?F m) = clamp pos 0 (H - V) \<and> target (?F m) = clamp pos 0 (H - V)
        \<and> \<not> isScrolling (?F m) \<and> \<not> rafPending (?F m)"
    using m inv[of m] st(1) by metis
  then show ?thesis using mono by blast
qed

theorem scroll_converges_witness:
  "0 < ease idle_scroll \<and> ease idle_scroll < 1
   \<and> (\<forall>v. quiet v = Returned)
   \<and> isScrolling idle_scroll = rafPending idle_scroll
   \<and> (\<exists>n. current (frames n (Some 3000) [quiet] (scrollTo (Some 3000) 900 1 False idle_scroll)) = 1
          \<and> \<not> isScrolling (frames n (Some 3000) [quiet] (scrollTo (Some 3000) 900 1 False idle_scroll))
          \<and> \<not> rafPending (frames n (Some 3000) [quiet] (scrollTo (Some 3000) 900 1 False idle_scroll)))
   \<and> current (frames 1 (Some 3000) [quiet] (scrollTo (Some 3000) 900 2 False idle_scroll)) = 1
   \<and> current (frames 2 (Some 3000) [quiet] (scrollTo (Some 3000) 900 2 False idle_scroll)) = 2"
proof -
  have h: "0 < ease idle_scroll" "ease idle_scroll < 1"
    "\<forall>l \<in> set [quiet]. \<forall>v. l v = Returned" "isScrolling idle_scroll = rafPending idle_scroll"
    by (simp_all add: idle_scroll_def quiet_def)
  have c: "clamp 1 0 (3000 - 900) = 1" by (simp add: clamp_def)
  have "\<exists>n. current (frames n (Some 3000) [quiet] (scrollTo (Some 3000) 900 1 False idle_scroll)) = 1
          \<and> \<not> isScrolling (frames n (Some 3000) [quiet] (scrollTo (Some 3000) 900 1 False idle_scroll))
          \<and> \<not> rafPending (frames n (Some 3000) [quiet] (scrollTo (Some 3000) 900 1 False idle_scroll))"
    using scroll_converges[OF h, of 3000 900 1] unfolding c by blast
  moreover have "current (frames 1 (Some 3000) [quiet] (scrollTo (Some 3000) 900 2 False idle_scroll)) = 1"
    by (simp add: frame_def updateScroll_def scrollTo_def idle_scroll_def quiet_def lerp_def Let_def)
  moreover have "current (frames 2 (Some 3000) [quiet] (scrollTo (Some 3000) 900 2 False idle_scroll)) = 2"
    by (simp add: numeral_2_eq_2 frame_def updateScroll_def scrollTo_def idle_scroll_def quiet_def
        lerp_def Let_def)
  ultimately show ?thesis using h by (simp add: quiet_def)
qed

section \<open>Pin-and-scale transform: phase boundaries\<close>

























section \<open>Degenerate geometry\<close>

lemma is_finite_Fin [simp]: "is_finite (Fin x)"
  by (simp add: is_finite_def)

lemma parallax_finite:
  assumes "growPhaseEnd \<noteq> 0"
  shows "is_finite (fst (parallax growPhaseEnd sp mp))" "is_finite (snd (parallax growPhaseEnd sp mp))"
  using assms by (simp_all add: parallax_def jsub_def Let_def)

text \<open>
  Claim C7, as the code has it.  Where the denominators are not zero (the animation range
  and \<open>1 - delay\<close> in the word animator, the viewport height in the hero), the progress
  values are finite numbers, the base and the target progress of a word lie in \<open>[0, 1]\<close>,
  and all four outputs of the hero transform are finite.
\<close>

theorem progress_finite_when_nondegenerate:
  "(animationRange opts windowHeight \<noteq> 0 \<and> w_delay w \<noteq> 1 \<longrightarrow>
      (\<exists>p. baseProgress opts windowHeight w = Fin p \<and> 0 \<le> p \<and> p \<le> 1)
    \<and> (\<exists>q. targetProgress opts windowHeight w = Fin q \<and> 0 \<le> q \<and> q \<le> 1))
   \<and> (vh \<noteq> 0 \<longrightarrow>
        is_finite (scale (updateTransform reduced screenWidth vh scrollProgress mp))
      \<and> is_finite (translateY (updateTransform reduced screenWidth vh scrollProgress mp))
      \<and> is_finite (parallaxX (updateTransform reduced screenWidth vh scrollProgress mp))
      \<and> is_finite (parallaxY (updateTransform reduced screenWidth vh scrollProgress mp)))"
proof (intro conjI impI)
  assume a: "animationRange opts windowHeight \<noteq> 0 \<and> w_delay w \<noteq> 1"
  then obtain p where p: "baseProgress opts windowHeight w = Fin p" "0 \<le> p" "p \<le> 1"
    by (auto simp add: baseProgress_def Let_def)
  then show "\<exists>p. baseProgress opts windowHeight w = Fin p \<and> 0 \<le> p \<and> p \<le> 1" by blast
  show "\<exists>q. targetProgress opts windowHeight w = Fin q \<and> 0 \<le> q \<and> q \<le> 1"
    using a by (simp add: targetProgress_def p(1) jsub_def)
next
  assume v: "vh \<noteq> 0"
  then have g: "vh * GROW_PHASE_VH_MULTIPLIER \<noteq> 0"
    by (simp add: GROW_PHASE_VH_MULTIPLIER_def)
  note pf = parallax_finite[OF g, of scrollProgress mp]
  show "is_finite (scale (updateTransform reduced screenWidth vh scrollProgress mp))"
    using v g by (simp add: updateTransform_def resting_def phase_growing_def phase_hold_def
        phase_release_def Let_def split: prod.splits)
  show "is_finite (translateY (updateTransform reduced screenWidth vh scrollProgress mp))"
    using v g by (simp add: updateTransform_def resting_def phase_growing_def phase_hold_def
        phase_release_def Let_def split: prod.splits)
  show "is_finite (parallaxX (updateTransform reduced screenWidth vh scrollProgress mp))"
    using pf by (auto simp add: updateTransform_def resting_def Let_def split: prod.splits)
  show "is_finite (parallaxY (updateTransform reduced screenWidth vh scrollProgress mp))"
    using pf by (auto simp add: updateTransform_def resting_def Let_def split: prod.splits)
qed

theorem progress_finite_when_nondegenerate_witness:
  "animationRange default_options 900 \<noteq> 0 \<and> w_delay edge_word \<noteq> 1 \<and> (900::real) \<noteq> 0
   \<and> baseProgress default_options 900 edge_word = Fin 0
   \<and> baseProgress default_options 900 (edge_word \<lparr> w_top := 450 \<rparr>) = Fin (1 / 2)
   \<and> (\<exists>q. targetProgress default_options 900 edge_word = Fin q \<and> 0 \<le> q \<and> q \<le> 1)
   \<and> is_finite (scale (updateTransform False 1280 900 0 (0, 0)))
   \<and> scale (updateTransform False 1280 900 0 (0, 0)) = Fin (46 / 100)"
proof -
  have h: "animationRange default_options 900 \<noteq> 0 \<and> w_delay edge_word \<noteq> 1"
    by (simp add: animationRange_def default_options_def edge_word_def Let_def)
  have v: "(900::real) \<noteq> 0" by simp
  have b: "baseProgress default_options 900 edge_word = Fin 0"
    "baseProgress default_options 900 (edge_word \<lparr> w_top := 450 \<rparr>) = Fin (1 / 2)"
    by (simp_all add: baseProgress_def animationRange_def default_options_def edge_word_def Let_def)
  have s: "scale (updateTransform False 1280 900 0 (0, 0)) = Fin (46 / 100)"
    by (simp add: updateTransform_def phase_growing_def GROW_PHASE_VH_MULTIPLIER_def
        HOLD_PHASE_VH_MULTIPLIER_def Let_def split: prod.splits)
  show ?thesis
    using progress_finite_when_nondegenerate[where opts = default_options and windowHeight = 900
        and w = edge_word and vh = 900 and reduced = False and screenWidth = 1280
        and scrollProgress = 0 and mp = "(0, 0)"] h v b s
    by simp
qed

text \<open>
  Claim C7 as stated does not hold: no denominator is guarded.  In a viewport of height 0
  the animation range is 0, and a word whose centre is on the top edge gets the base
  progress \<open>0 / 0\<close>; the hero at scroll position 0 gets the growth progress \<open>0 / 0\<close>, hence
  the scale NaN.
\<close>

theorem progress_nan_when_degenerate:
  "animationRange default_options 0 = 0
   \<and> baseProgress default_options 0 edge_word = NaN
   \<and> targetProgress default_options 0 edge_word = NaN
   \<and> fst (updateWord default_options 0 edge_word fresh_states) = NaN
   \<and> scale (updateTransform False 1280 0 0 (0, 0)) = NaN
   \<and> translateY (updateTransform False 1280 0 0 (0, 0)) = NaN"
  by (simp add: animationRange_def baseProgress_def targetProgress_def updateWord_def
      default_options_def edge_word_def fresh_states_def updateTransform_def phase_growing_def
      GROW_PHASE_VH_MULTIPLIER_def HOLD_PHASE_VH_MULTIPLIER_def jsub_def signed_inf_def
      applyEasing_def baseTransform_def BASE_TRANSFORMS_def Let_def split: prod.splits)


end
